theory Spec2Isabelle
  imports Main "HOL-Library.AList" "HOL-Library.Sublist"
begin

section \<open>The file system under the project root\<close>

text \<open>
  The build script (\<^verbatim>\<open>buildTheme\<close>) works on four places below its project root
  \<^verbatim>\<open>rootDir\<close>: the template tree \<^verbatim>\<open>theme-src\<close>, the build output
  \<^verbatim>\<open>dist/assets\<close>, the staged output \<^verbatim>\<open>theme\<close> and the archive
  \<^verbatim>\<open>theme.zip\<close>. The project root is modelled as a tree. A directory is the list of
  its entries in the order in which a directory listing returns them; a path is the list
  of its components below the root. Symbolic links, permissions and time stamps are not
  part of the model.

  The content of a file is a byte string, or an archive given by its entries: the path of
  the entry inside the archive, and either the content of a file or the mark of a
  directory (the archive writes the name of a directory with a slash at its end and with
  no content). The order of the entries of an archive carries no meaning here.
\<close>

type_synonym name = string
type_synonym path = "name list"

datatype content = Bytes string | Zip "(path \<times> member) list"
  and member = FileMember content | DirMember

datatype node = File content | Dir "(name \<times> node) list"

datatype error =
    ENOENT path
  | ENOTDIR path
  | EEXIST path
  | EISDIR path
  | SameFile path path
  | SubdirOfSelf path path
  | NonDirOverDir path path
  | DirOverNonDir path path

fun is_dir :: "node \<Rightarrow> bool" where
  "is_dir (Dir es) = True"
| "is_dir (File c) = False"

text \<open>Path resolution: \<open>None\<close> when nothing is at the path.\<close>

fun lookup :: "node \<Rightarrow> path \<Rightarrow> node option" where
  "lookup n [] = Some n"
| "lookup n (x # xs) =
     (case n of
        File c \<Rightarrow> None
      | Dir es \<Rightarrow> (case map_of es x of None \<Rightarrow> None | Some c \<Rightarrow> lookup c xs))"

text \<open>
  \<open>put p new r\<close> places \<open>new\<close> at path \<open>p\<close>, replacing what is there. The parent
  of \<open>p\<close> has to be a directory. A replaced entry keeps its position in the listing, a
  new entry goes to its end.
\<close>

fun put :: "path \<Rightarrow> node \<Rightarrow> node \<Rightarrow> node option" where
  "put [] new n = Some new"
| "put (x # xs) new n =
     (case n of
        File c \<Rightarrow> None
      | Dir es \<Rightarrow>
          (case (if xs = [] then Some new
                 else (case map_of es x of None \<Rightarrow> None | Some c \<Rightarrow> put xs new c)) of
             None \<Rightarrow> None
           | Some c' \<Rightarrow> Some (Dir (AList.update x c' es))))"

text \<open>
  \<^verbatim>\<open>fs.existsSync(p)\<close>.
\<close>

definition existsSync :: "path \<Rightarrow> node \<Rightarrow> bool" where
  "existsSync p r = (lookup r p \<noteq> None)"

text \<open>
  \<open>through_file r p\<close>: the way to \<open>p\<close> runs through a file, that is, a proper
  beginning of \<open>p\<close> is a file. The system then reports \<^verbatim>\<open>ENOTDIR\<close>, where for a name
  that is simply missing it reports \<^verbatim>\<open>ENOENT\<close>.
\<close>

fun through_file :: "node \<Rightarrow> path \<Rightarrow> bool" where
  "through_file n [] = False"
| "through_file n (x # xs) =
     (case n of
        File c \<Rightarrow> True
      | Dir es \<Rightarrow> (case map_of es x of None \<Rightarrow> False | Some c \<Rightarrow> through_file c xs))"

text \<open>
  \<^verbatim>\<open>fs.readdir(p)\<close>: the names of the entries of the directory, one level, in
  listing order; it fails with \<^verbatim>\<open>ENOENT\<close> when \<open>p\<close> is missing, and with
  \<^verbatim>\<open>ENOTDIR\<close> when \<open>p\<close> is a file or runs through a file.
\<close>

definition readdir :: "path \<Rightarrow> node \<Rightarrow> error + name list" where
  "readdir p r =
     (case lookup r p of
        None \<Rightarrow> if through_file r p then Inl (ENOTDIR p) else Inl (ENOENT p)
      | Some (File c) \<Rightarrow> Inl (ENOTDIR p)
      | Some (Dir es) \<Rightarrow> Inr (map fst es))"

text \<open>
  \<^verbatim>\<open>mkdirs\<close> (\<^verbatim>\<open>fs.mkdir\<close> with \<^verbatim>\<open>recursive: true\<close>): every missing directory
  along \<open>p\<close> is created; a directory that exists is left as it is; a file in the way is an
  error.
\<close>

fun mkdirs_node :: "path \<Rightarrow> node \<Rightarrow> node option" where
  "mkdirs_node p (File c) = None"
| "mkdirs_node [] (Dir es) = Some (Dir es)"
| "mkdirs_node (x # xs) (Dir es) =
     (case mkdirs_node xs (case map_of es x of None \<Rightarrow> Dir [] | Some c \<Rightarrow> c) of
        None \<Rightarrow> None
      | Some c' \<Rightarrow> Some (Dir (AList.update x c' es)))"

definition mkdirs :: "path \<Rightarrow> node \<Rightarrow> error + node" where
  "mkdirs p r =
     (case mkdirs_node p r of
        Some r' \<Rightarrow> Inr r'
      | None \<Rightarrow> (case lookup r p of Some n \<Rightarrow> Inl (EEXIST p) | None \<Rightarrow> Inl (ENOTDIR p)))"

text \<open>
  \<^verbatim>\<open>fs.ensureDir(p)\<close> of fs-extra is \<^verbatim>\<open>mkdirs\<close>.
\<close>

definition ensureDir :: "path \<Rightarrow> node \<Rightarrow> error + node" where
  "ensureDir p r = mkdirs p r"

text \<open>
  \<^verbatim>\<open>fs.emptyDir(p)\<close> of fs-extra: it lists the directory and removes every entry; when
  the listing fails (nothing there, or not a directory) it calls \<^verbatim>\<open>mkdirs\<close> instead.
\<close>

definition emptyDir :: "path \<Rightarrow> node \<Rightarrow> error + node" where
  "emptyDir p r =
     (case lookup r p of
        Some (Dir es) \<Rightarrow>
          (case put p (Dir []) r of Some r' \<Rightarrow> Inr r' | None \<Rightarrow> Inl (ENOENT p))
      | _ \<Rightarrow> mkdirs p r)"

text \<open>
  \<^verbatim>\<open>fs.copy(src, dest)\<close> of fs-extra with its default options (overwrite). A file
  replaces a file or fills a free name. A directory is merged into an existing directory
  entry by entry, or created. A file never replaces a directory and a directory never
  replaces a file: both are errors. \<open>copy_node s d n dest\<close> is the node that stands at
  the destination afterwards, \<open>dest\<close> being what stood there before; \<open>s\<close> and \<open>d\<close>
  are the two paths, kept for the error value.

  A copy that fails is modelled as leaving the tree as it was before the call. The
  library may by then have written a part of the destination.
\<close>

fun copy_node :: "path \<Rightarrow> path \<Rightarrow> node \<Rightarrow> node option \<Rightarrow> error + node"
  and copy_entries ::
    "path \<Rightarrow> path \<Rightarrow> (name \<times> node) list \<Rightarrow> (name \<times> node) list \<Rightarrow> error + (name \<times> node) list"
where
  "copy_node s d (File c) dest =
     (case dest of
        Some (Dir ds) \<Rightarrow> Inl (NonDirOverDir d s)
      | _ \<Rightarrow> Inr (File c))"
| "copy_node s d (Dir es) dest =
     (case dest of
        Some (File c) \<Rightarrow> Inl (DirOverNonDir d s)
      | Some (Dir ds) \<Rightarrow>
          (case copy_entries s d es ds of Inl e \<Rightarrow> Inl e | Inr ds' \<Rightarrow> Inr (Dir ds'))
      | None \<Rightarrow>
          (case copy_entries s d es [] of Inl e \<Rightarrow> Inl e | Inr ds' \<Rightarrow> Inr (Dir ds')))"
| "copy_entries s d [] ds = Inr ds"
| "copy_entries s d ((k, c) # es) ds =
     (case copy_node (s @ [k]) (d @ [k]) c (map_of ds k) of
        Inl e \<Rightarrow> Inl e
      | Inr c' \<Rightarrow> copy_entries s d es (AList.update k c' ds))"

definition copy :: "path \<Rightarrow> path \<Rightarrow> node \<Rightarrow> error + node" where
  "copy src dest r =
     (case lookup r src of
        None \<Rightarrow> Inl (ENOENT src)
      | Some n \<Rightarrow>
          if src = dest then Inl (SameFile src dest)
          else if is_dir n \<and> prefix src dest then Inl (SubdirOfSelf src dest)
          else
            (case (if lookup r (butlast dest) = None then mkdirs (butlast dest) r else Inr r) of
               Inl e \<Rightarrow> Inl e
             | Inr r1 \<Rightarrow>
                 (case copy_node src dest n (lookup r1 dest) of
                    Inl e \<Rightarrow> Inl e
                  | Inr n' \<Rightarrow>
                      (case put dest n' r1 of
                         None \<Rightarrow> Inl (ENOTDIR dest)
                       | Some r2 \<Rightarrow> Inr r2))))"


section \<open>The build script\<close>

text \<open>
  What the script prints: \<^verbatim>\<open>console.log\<close> and \<^verbatim>\<open>console.error\<close> with a text, or
  with a text and an error object; and the report that the runtime itself prints for an
  exception that nothing catches.
\<close>

datatype line = Text string | TextErr string error | UncaughtErr error

record state =
  root :: node
  stdout :: "line list"
  stderr :: "line list"

text \<open>
  The ways in which the body of \<^verbatim>\<open>buildTheme\<close> stops early: an exception thrown inside
  the \<^verbatim>\<open>try\<close> block, \<^verbatim>\<open>process.exit(n)\<close>, and an exception raised in a stream
  callback, outside the \<^verbatim>\<open>try\<close> block. Each carries the state reached.
\<close>

datatype halt = Thrown error state | Exited nat state | Uncaught error state

definition console_log :: "line \<Rightarrow> state \<Rightarrow> state" where
  "console_log l st = st\<lparr>stdout := stdout st @ [l]\<rparr>"

definition console_error :: "line \<Rightarrow> state \<Rightarrow> state" where
  "console_error l st = st\<lparr>stderr := stderr st @ [l]\<rparr>"

text \<open>\<^verbatim>\<open>await\<close> of a file-system call: a rejection is thrown where the call stands.\<close>

definition await :: "(node \<Rightarrow> error + node) \<Rightarrow> state \<Rightarrow> halt + state" where
  "await f st = (case f (root st) of Inl e \<Rightarrow> Inl (Thrown e st) | Inr r \<Rightarrow> Inr (st\<lparr>root := r\<rparr>))"

text \<open>The fixed paths, relative to \<^verbatim>\<open>rootDir\<close>.\<close>

abbreviation themeDir :: path where "themeDir \<equiv> [''theme'']"
abbreviation themeSrc :: path where "themeSrc \<equiv> [''theme-src'']"
abbreviation themeAssets :: path where "themeAssets \<equiv> [''theme'', ''assets'']"
abbreviation distAssets :: path where "distAssets \<equiv> [''dist'', ''assets'']"
abbreviation themeZip :: path where "themeZip \<equiv> [''theme.zip'']"

text \<open>\<^verbatim>\<open>file.endsWith(suffix)\<close>.\<close>

definition endsWith :: "string \<Rightarrow> string \<Rightarrow> bool" where
  "endsWith s t = (length t \<le> length s \<and> drop (length s - length t) s = t)"

subsection \<open>Lines 12 to 25: clean the staged output, check the template tree, copy it\<close>

definition stager :: "state \<Rightarrow> halt + state" where
  "stager st =
     (case await (emptyDir themeDir) st of
        Inl h \<Rightarrow> Inl h
      | Inr st1 \<Rightarrow>
          if \<not> existsSync themeSrc (root st1)
          then Inl (Exited 1 (console_error (Text ''theme-src directory not found'') st1))
          else await (copy themeSrc themeDir) st1)"

subsection \<open>Lines 27 to 49: the assets directory and the built assets\<close>

fun copyAssets :: "name list \<Rightarrow> state \<Rightarrow> halt + state" where
  "copyAssets [] st = Inr st"
| "copyAssets (file # files) st =
     (let sourcePath = distAssets @ [file];
          targetPath = themeAssets @ [file]
      in case (if endsWith file ''.css''
               then await (copy sourcePath (themeAssets @ [''index.css''])) st
               else if endsWith file ''.js''
               then await (copy sourcePath (themeAssets @ [''index.js''])) st
               else await (copy sourcePath targetPath) st) of
           Inl h \<Rightarrow> Inl h
         | Inr st' \<Rightarrow> copyAssets files st')"

definition normalizer :: "state \<Rightarrow> halt + state" where
  "normalizer st =
     (case await (ensureDir themeAssets) st of
        Inl h \<Rightarrow> Inl h
      | Inr st1 \<Rightarrow>
          (case readdir distAssets (root st1) of
             Inl e \<Rightarrow> Inl (Thrown e st1)
           | Inr distFiles \<Rightarrow> copyAssets distFiles st1))"

subsection \<open>Lines 51 to 67: the archive\<close>

text \<open>
  \<^verbatim>\<open>fs.createWriteStream(p)\<close> opens \<open>p\<close> for writing: the file is created, or cut to
  length zero when it exists. A directory at \<open>p\<close> makes the stream fail.
\<close>

definition createWriteStream :: "path \<Rightarrow> node \<Rightarrow> error + node" where
  "createWriteStream p r =
     (case lookup r p of
        Some (Dir es) \<Rightarrow> Inl (EISDIR p)
      | _ \<Rightarrow> (case put p (File (Bytes [])) r of None \<Rightarrow> Inl (ENOENT p) | Some r' \<Rightarrow> Inr r'))"

text \<open>
  \<^verbatim>\<open>archive.directory(dirpath, false)\<close> walks the directory and appends an entry for
  everything below it: a file entry for a file, a directory entry for a directory. With
  \<^verbatim>\<open>false\<close> as destination the path of an entry is the path relative to
  \<^verbatim>\<open>dirpath\<close>, with no prefix; \<^verbatim>\<open>dirpath\<close> itself gets no entry.
\<close>

fun members :: "path \<Rightarrow> node \<Rightarrow> (path \<times> member) list"
  and members_entries :: "path \<Rightarrow> (name \<times> node) list \<Rightarrow> (path \<times> member) list"
where
  "members p (File c) = [(p, FileMember c)]"
| "members p (Dir es) = (p, DirMember) # members_entries p es"
| "members_entries p [] = []"
| "members_entries p ((k, n) # es) = members (p @ [k]) n @ members_entries p es"

definition archive_directory :: "path \<Rightarrow> node \<Rightarrow> error + (path \<times> member) list" where
  "archive_directory dirpath r =
     (case lookup r dirpath of
        None \<Rightarrow> Inl (ENOENT dirpath)
      | Some (File c) \<Rightarrow> Inl (ENOTDIR dirpath)
      | Some (Dir es) \<Rightarrow> Inr (members_entries [] es))"

text \<open>
  The script registers no \<^verbatim>\<open>error\<close> listener on the output stream, and its listener on
  the archive throws from inside the callback: a failure of either ends the process as an
  uncaught exception and does not reach the \<^verbatim>\<open>catch\<close> block. The \<^verbatim>\<open>close\<close> listener
  of the output stream prints the success message once the archive is written.
\<close>

definition archiver :: "state \<Rightarrow> halt + state" where
  "archiver st =
     (case createWriteStream themeZip (root st) of
        Inl e \<Rightarrow> Inl (Uncaught e st)
      | Inr r1 \<Rightarrow>
          (case archive_directory themeDir r1 of
             Inl e \<Rightarrow> Inl (Uncaught e (st\<lparr>root := r1\<rparr>))
           | Inr ms \<Rightarrow>
               (case put themeZip (File (Zip ms)) r1 of
                  None \<Rightarrow> Inl (Uncaught (ENOENT themeZip) (st\<lparr>root := r1\<rparr>))
                | Some r2 \<Rightarrow>
                    Inr (console_log (Text ''Theme package created successfully!'')
                           (st\<lparr>root := r2\<rparr>)))))"

subsection \<open>The whole of \<^verbatim>\<open>buildTheme\<close>\<close>

definition body :: "state \<Rightarrow> halt + state" where
  "body st =
     (case stager st of
        Inl h \<Rightarrow> Inl h
      | Inr st1 \<Rightarrow>
          (case normalizer st1 of
             Inl h \<Rightarrow> Inl h
           | Inr st2 \<Rightarrow> archiver st2))"

record outcome =
  exit_status :: nat
  final :: state

text \<open>
  The \<^verbatim>\<open>try\<close>/\<^verbatim>\<open>catch\<close> around the body: a thrown error is printed with the prefix
  and the process exits with status 1. \<^verbatim>\<open>process.exit\<close> ends the process where it
  stands. An uncaught exception is reported by the runtime, which exits with status 1. A
  run that ends normally exits with status 0.
\<close>

definition start :: "node \<Rightarrow> state" where
  "start r = \<lparr>root = r, stdout = [], stderr = []\<rparr>"

definition buildTheme :: "node \<Rightarrow> outcome" where
  "buildTheme r =
     (case body (start r) of
        Inr st \<Rightarrow> \<lparr>exit_status = 0, final = st\<rparr>
      | Inl (Thrown e st) \<Rightarrow>
          \<lparr>exit_status = 1, final = console_error (TextErr ''Error building theme:'' e) st\<rparr>
      | Inl (Exited n st) \<Rightarrow> \<lparr>exit_status = n, final = st\<rparr>
      | Inl (Uncaught e st) \<Rightarrow>
          \<lparr>exit_status = 1, final = console_error (UncaughtErr e) st\<rparr>)"

section \<open>Notions used in the statements\<close>

text \<open>
  The name under which the loop stores a build-output entry, as the specification words
  it: \<^verbatim>\<open>.css\<close> goes to \<^verbatim>\<open>index.css\<close>, \<^verbatim>\<open>.js\<close> to \<^verbatim>\<open>index.js\<close>, any other
  name is kept. That the loop of the script uses this name is lemma \<open>copyAssets_step\<close>.
\<close>

definition normalizedName :: "name \<Rightarrow> name" where
  "normalizedName file =
     (if endsWith file ''.css'' then ''index.css''
      else if endsWith file ''.js'' then ''index.js''
      else file)"

text \<open>
  A tree is well formed when no directory lists a name twice, as in every real file
  system.
\<close>

fun well_formed :: "node \<Rightarrow> bool"
  and well_formed_entries :: "(name \<times> node) list \<Rightarrow> bool"
where
  "well_formed (File c) = True"
| "well_formed (Dir es) = (distinct (map fst es) \<and> well_formed_entries es)"
| "well_formed_entries [] = True"
| "well_formed_entries ((k, n) # es) = (well_formed n \<and> well_formed_entries es)"

text \<open>The entry that the archive writes for a node, and the entries of an archive file.\<close>

fun entry_of :: "node \<Rightarrow> member" where
  "entry_of (File c) = FileMember c"
| "entry_of (Dir es) = DirMember"

definition archive_entries :: "node \<Rightarrow> path \<Rightarrow> (path \<times> member) list" where
  "archive_entries r p = (case lookup r p of Some (File (Zip ms)) \<Rightarrow> ms | _ \<Rightarrow> [])"

text \<open>The state in which a stage stopped, whether it stopped early or not.\<close>

fun halt_state :: "halt \<Rightarrow> state" where
  "halt_state (Thrown e st) = st"
| "halt_state (Exited n st) = st"
| "halt_state (Uncaught e st) = st"

definition end_state :: "halt + state \<Rightarrow> state" where
  "end_state x = (case x of Inl h \<Rightarrow> halt_state h | Inr st \<Rightarrow> st)"

section \<open>Example trees\<close>

text \<open>
  The scenario of the specification: the template tree holds \<^verbatim>\<open>layout/theme.liquid\<close> and
  an empty \<^verbatim>\<open>assets\<close> directory, the build output holds a style sheet, a script and an
  image.
\<close>

definition scenario_root :: node where
  "scenario_root =
     Dir [(''theme-src'',
             Dir [(''layout'', Dir [(''theme.liquid'', File (Bytes ''<html>''))]),
                  (''assets'', Dir [])]),
          (''dist'',
             Dir [(''assets'',
                     Dir [(''bundle.a1b2.css'', File (Bytes ''body{}'')),
                          (''bundle.a1b2.js'', File (Bytes ''main()'')),
                          (''logo.png'', File (Bytes ''PNG''))])])]"

text \<open>
  A project root with a staged output left by an earlier run and no template tree.
\<close>

definition stale_root :: node where
  "stale_root = Dir [(''theme'', Dir [(''old.liquid'', File (Bytes ''stale''))])]"

text \<open>A project root with a template tree and an old archive, and no build output.\<close>

definition unbuilt_root :: node where
  "unbuilt_root =
     Dir [(''theme-src'', Dir [(''layout'', Dir [(''theme.liquid'', File (Bytes ''<html>''))])]),
          (''theme.zip'', File (Bytes ''old archive''))]"

text \<open>
  The scenario with a template tree whose \<^verbatim>\<open>assets\<close> directory is not empty: it holds a
  snippet of its own and a \<^verbatim>\<open>logo.png\<close> that the build output also provides.
\<close>

definition template_assets_root :: node where
  "template_assets_root =
     Dir [(''theme-src'',
             Dir [(''layout'', Dir [(''theme.liquid'', File (Bytes ''<html>''))]),
                  (''assets'',
                     Dir [(''extra.liquid'', File (Bytes ''snippet'')),
                          (''logo.png'', File (Bytes ''template logo''))])]),
          (''dist'',
             Dir [(''assets'',
                     Dir [(''bundle.a1b2.css'', File (Bytes ''body{}'')),
                          (''bundle.a1b2.js'', File (Bytes ''main()'')),
                          (''logo.png'', File (Bytes ''PNG''))])])]"

text \<open>A build output with two style sheets and two scripts.\<close>

definition chunked_root :: node where
  "chunked_root =
     Dir [(''theme-src'', Dir [(''assets'', Dir [])]),
          (''dist'',
             Dir [(''assets'',
                     Dir [(''a.css'', File (Bytes ''first css'')),
                          (''a.js'', File (Bytes ''first js'')),
                          (''b.css'', File (Bytes ''second css'')),
                          (''font.woff'', File (Bytes ''font'')),
                          (''b.js'', File (Bytes ''second js''))])])]"



section \<open>Facts about the file-system operations\<close>

lemma lookup_append:
  "lookup r (p @ q) = (case lookup r p of None \<Rightarrow> None | Some n \<Rightarrow> lookup n q)"
  by (induction p arbitrary: r) (auto split: node.splits option.splits)

lemma lookup_put_same: "put p new r = Some r' \<Longrightarrow> lookup r' p = Some new"
proof (induction p arbitrary: r r')
  case Nil
  then show ?case by simp
next
  case (Cons x xs)
  then show ?case
    by (cases r; cases "xs = []")
       (auto simp: update_conv' split: option.splits if_splits)
qed

lemma lookup_put_other:
  "put p new r = Some r' \<Longrightarrow> \<not> prefix p q \<Longrightarrow> \<not> prefix q p \<Longrightarrow> lookup r' q = lookup r q"
proof (induction p arbitrary: r r' q)
  case Nil
  then show ?case by simp
next
  case (Cons x xs)
  then obtain y ys where q: "q = y # ys" by (cases q) auto
  show ?case
  proof (cases r)
    case (File c)
    with Cons.prems show ?thesis by simp
  next
    case (Dir es)
    show ?thesis
    proof (cases "y = x")
      case False
      with Cons.prems Dir q show ?thesis
        by (auto simp: update_conv' split: option.splits if_splits)
    next
      case True
      with Cons.prems q have np: "\<not> prefix xs ys" "\<not> prefix ys xs" by auto
      then have "xs \<noteq> []" by auto
      with Cons.prems Dir obtain c c' where
        c: "map_of es x = Some c" "put xs new c = Some c'" "r' = Dir (AList.update x c' es)"
        by (auto split: option.splits)
      from Cons.IH[OF c(2) np] c Dir q True show ?thesis
        by (simp add: update_conv')
    qed
  qed
qed

lemma put_exists:
  "lookup r (butlast p) = Some (Dir es) \<Longrightarrow> \<exists>r'. put p new r = Some r'"
proof (induction p arbitrary: r)
  case Nil
  then show ?case by simp
next
  case (Cons x xs)
  then show ?case
    by (cases r; cases "xs = []") (auto split: option.splits)
qed

lemma mkdirs_node_other:
  "mkdirs_node p r = Some r' \<Longrightarrow> \<not> prefix q p \<Longrightarrow> lookup r' q = lookup r q"
proof (induction p r arbitrary: r' q rule: mkdirs_node.induct)
  case (1 p c)
  then show ?case by simp
next
  case (2 es)
  then show ?case by simp
next
  case (3 x xs es)
  then obtain y ys where q: "q = y # ys" by (cases q) auto
  from "3.prems" obtain c' where
    c: "mkdirs_node xs (case map_of es x of None \<Rightarrow> Dir [] | Some c \<Rightarrow> c) = Some c'"
       "r' = Dir (AList.update x c' es)"
    by (auto split: option.splits)
  show ?case
  proof (cases "y = x")
    case False
    with c q show ?thesis by (simp add: update_conv')
  next
    case True
    with "3.prems" q have np: "\<not> prefix ys xs" by simp
    from "3.IH"[OF c(1) np] np c q True show ?thesis
      by (cases ys) (auto simp: update_conv' split: option.splits)
  qed
qed

lemma mkdirs_node_is_dir:
  "mkdirs_node p r = Some r' \<Longrightarrow> \<exists>es. lookup r' p = Some (Dir es)"
proof (induction p r arbitrary: r' rule: mkdirs_node.induct)
  case (3 x xs es)
  then show ?case by (auto simp: update_conv' split: option.splits)
qed auto

lemma mkdirs_node_existing:
  "lookup r p = Some (Dir es) \<Longrightarrow> mkdirs_node p r = Some r"
proof (induction p r arbitrary: rule: mkdirs_node.induct)
  case (1 p c)
  then show ?case by (cases p) auto
next
  case (3 x xs ds)
  then show ?case by (auto simp: update_triv split: option.splits)
qed auto

lemma prefix_butlast: "prefix q (butlast d) \<Longrightarrow> prefix q d"
  by (metis prefix_order.trans prefixeq_butlast)

lemma put_put: "put p a r = Some r1 \<Longrightarrow> put p b r1 = put p b r"
proof (induction p arbitrary: r r1)
  case Nil
  then show ?case by simp
next
  case (Cons x xs)
  then show ?case
    by (cases r; cases "xs = []") (auto simp: update_conv' split: option.splits)
qed

lemma put_triv: "lookup r p = Some n \<Longrightarrow> put p n r = Some r"
proof (induction p arbitrary: r)
  case Nil
  then show ?case by simp
next
  case (Cons x xs)
  then show ?case
    by (cases r; cases "xs = []") (auto simp: update_triv split: option.splits)
qed

lemma mkdirs_node_fresh:
  "mkdirs_node p r = Some r' \<Longrightarrow> lookup r p = None \<Longrightarrow> lookup r' p = Some (Dir [])"
proof (induction p r arbitrary: r' rule: mkdirs_node.induct)
  case (3 x xs es)
  then show ?case
    by (cases xs) (auto simp: update_conv' split: option.splits)
qed auto

lemma mkdirs_node_file:
  "lookup r p = Some (File c) \<Longrightarrow> mkdirs_node p r = None"
proof (induction p r rule: mkdirs_node.induct)
  case (3 x xs es)
  then show ?case by (auto split: option.splits)
qed auto

lemma mkdirs_other:
  "mkdirs p r = Inr r' \<Longrightarrow> \<not> prefix q p \<Longrightarrow> lookup r' q = lookup r q"
  by (auto simp: mkdirs_def split: option.splits dest: mkdirs_node_other)

lemma emptyDir_other:
  assumes "emptyDir p r = Inr r'" "\<not> prefix p q" "\<not> prefix q p"
  shows "lookup r' q = lookup r q"
  using assms
  by (auto simp: emptyDir_def split: option.splits node.splits
           dest: mkdirs_other lookup_put_other)

lemma emptyDir_same:
  assumes "emptyDir p r = Inr r'"
  shows "lookup r' p = Some (Dir [])"
proof (cases "lookup r p")
  case None
  with assms show ?thesis
    by (auto simp: emptyDir_def mkdirs_def split: option.splits dest: mkdirs_node_fresh)
next
  case (Some n)
  show ?thesis
  proof (cases n)
    case (File c)
    with Some assms show ?thesis
      by (auto simp: emptyDir_def mkdirs_def mkdirs_node_file split: option.splits)
  next
    case (Dir es)
    with Some assms show ?thesis
      by (auto simp: emptyDir_def split: option.splits dest: lookup_put_same)
  qed
qed


lemma copy_node_file:
  "copy_node s d (File c) dest = Inr n' \<Longrightarrow> n' = File c"
  by (auto split: option.splits node.splits)

lemma copy_other:
  assumes "copy s d r = Inr r'" "\<not> prefix d q" "\<not> prefix q d"
  shows "lookup r' q = lookup r q"
proof -
  from assms(1) obtain n r1 n' where
    r1: "(if lookup r (butlast d) = None then mkdirs (butlast d) r else Inr r) = Inr r1"
    and put: "put d n' r1 = Some r'"
    by (auto simp: copy_def split: option.splits if_splits sum.splits)
  from assms(3) have "\<not> prefix q (butlast d)" using prefix_butlast by blast
  with r1 have "lookup r1 q = lookup r q"
    by (auto split: if_splits dest: mkdirs_other)
  with lookup_put_other[OF put assms(2,3)] show ?thesis by simp
qed

lemma copy_dest:
  assumes "copy s d r = Inr r'"
  shows "\<exists>n n'. lookup r s = Some n \<and> copy_node s d n (lookup r d) = Inr n' \<and>
           lookup r' d = Some n'"
proof -
  from assms obtain n r1 n' where
    n: "lookup r s = Some n"
    and r1: "(if lookup r (butlast d) = None then mkdirs (butlast d) r else Inr r) = Inr r1"
    and cn: "copy_node s d n (lookup r1 d) = Inr n'"
    and put: "put d n' r1 = Some r'"
    by (auto simp: copy_def split: option.splits if_splits sum.splits)
  have "lookup r1 d = lookup r d"
  proof (cases "lookup r (butlast d) = None")
    case True
    then have "d \<noteq> []" by auto
    then have "\<not> prefix d (butlast d)"
      by (metis append_butlast_last_id prefix_order.eq_iff prefixeq_butlast
            append_self_conv not_Cons_self2 prefix_def same_append_eq snoc_eq_iff_butlast)
    with r1 True show ?thesis by (auto dest: mkdirs_other)
  next
    case False
    with r1 show ?thesis by simp
  qed
  with n cn lookup_put_same[OF put] show ?thesis by auto
qed

declare lookup.simps(2) [simp del] put.simps(2) [simp del] through_file.simps(2) [simp del]

lemma head_differs: "y \<noteq> x \<Longrightarrow> \<not> prefix (x # p) (y # q) \<and> \<not> prefix (y # q) (x # p)"
  by simp

lemma emptyDir_frame:
  assumes "emptyDir (x # p) r = Inr r'" "y \<noteq> x"
  shows "lookup r' (y # q) = lookup r (y # q)"
  using emptyDir_other[OF assms(1)] head_differs[OF assms(2)] by blast

lemma copy_frame:
  assumes "copy s (x # p) r = Inr r'" "y \<noteq> x"
  shows "lookup r' (y # q) = lookup r (y # q)"
  using copy_other[OF assms(1)] head_differs[OF assms(2)] by blast

lemma mkdirs_frame:
  assumes "mkdirs (x # p) r = Inr r'" "y \<noteq> x"
  shows "lookup r' (y # q) = lookup r (y # q)"
  using mkdirs_other[OF assms(1)] head_differs[OF assms(2)] by blast

lemma put_frame:
  assumes "put (x # p) n r = Some r'" "y \<noteq> x"
  shows "lookup r' (y # q) = lookup r (y # q)"
  using lookup_put_other[OF assms(1)] head_differs[OF assms(2)] by blast

lemma copyAssets_step:
  "copyAssets (file # files) st =
     (case await (copy (distAssets @ [file]) (themeAssets @ [normalizedName file])) st of
        Inl h \<Rightarrow> Inl h
      | Inr st' \<Rightarrow> copyAssets files st')"
  by (simp add: normalizedName_def)

lemma await_Inr: "await f st = Inr st' \<longleftrightarrow> (\<exists>r'. f (root st) = Inr r' \<and> st' = st\<lparr>root := r'\<rparr>)"
  by (cases "f (root st)") (auto simp: await_def)

lemma stager_frame:
  assumes "y \<noteq> ''theme''"
  shows "lookup (root (end_state (stager st))) (y # q) = lookup (root st) (y # q)"
proof (cases "emptyDir themeDir (root st)")
  case (Inl e)
  then show ?thesis by (simp add: stager_def await_def end_state_def)
next
  case (Inr r1)
  from emptyDir_frame[OF Inr assms] have r1: "lookup r1 (y # q) = lookup (root st) (y # q)" .
  show ?thesis
  proof (cases "copy themeSrc themeDir r1")
    case (Inl e)
    with Inr r1 show ?thesis
      by (simp add: stager_def await_def end_state_def console_error_def)
  next
    case r2: (Inr r2)
    from copy_frame[OF r2 assms] r1 Inr r2 show ?thesis
      by (simp add: stager_def await_def end_state_def console_error_def)
  qed
qed

lemma copyAssets_frame:
  assumes "y \<noteq> ''theme''"
  shows "lookup (root (end_state (copyAssets files st))) (y # q) = lookup (root st) (y # q)"
proof (induction files arbitrary: st)
  case Nil
  then show ?case by (simp add: end_state_def)
next
  case (Cons f files)
  let ?c = "copy (distAssets @ [f]) (themeAssets @ [normalizedName f])"
  show ?case
  proof (cases "?c (root st)")
    case (Inl e)
    then show ?thesis
      unfolding copyAssets_step by (simp add: await_def end_state_def)
  next
    case (Inr r1)
    then have "lookup r1 (y # q) = lookup (root st) (y # q)"
      using assms copy_frame[of _ "''theme''" _ "root st" r1 y q] by simp
    with Inr Cons.IH[of "st\<lparr>root := r1\<rparr>"] show ?thesis
      unfolding copyAssets_step by (simp add: await_def)
  qed
qed

lemma normalizer_frame:
  assumes "y \<noteq> ''theme''"
  shows "lookup (root (end_state (normalizer st))) (y # q) = lookup (root st) (y # q)"
proof (cases "ensureDir themeAssets (root st)")
  case (Inl e)
  then show ?thesis by (simp add: normalizer_def await_def end_state_def)
next
  case (Inr r1)
  then have r1: "lookup r1 (y # q) = lookup (root st) (y # q)"
    using assms mkdirs_frame[of "''theme''" _ "root st" r1 y q] unfolding ensureDir_def by simp
  show ?thesis
  proof (cases "readdir distAssets r1")
    case (Inl e)
    with Inr r1 show ?thesis by (simp add: normalizer_def await_def end_state_def)
  next
    case files: (Inr files)
    with Inr r1 copyAssets_frame[OF assms, of files "st\<lparr>root := r1\<rparr>" q] show ?thesis
      by (simp add: normalizer_def await_def)
  qed
qed

lemma createWriteStream_frame:
  assumes "createWriteStream (x # p) r = Inr r'" "y \<noteq> x"
  shows "lookup r' (y # q) = lookup r (y # q)"
proof -
  from assms(1) have "put (x # p) (File (Bytes [])) r = Some r'"
    by (auto simp: createWriteStream_def split: option.splits node.splits)
  from put_frame[OF this assms(2)] show ?thesis .
qed

lemma archiver_frame:
  assumes "y \<noteq> ''theme.zip''"
  shows "lookup (root (end_state (archiver st))) (y # q) = lookup (root st) (y # q)"
proof (cases "createWriteStream themeZip (root st)")
  case (Inl e)
  then show ?thesis by (simp add: archiver_def end_state_def)
next
  case (Inr r1)
  from createWriteStream_frame[OF Inr assms] have r1: "lookup r1 (y # q) = lookup (root st) (y # q)" .
  show ?thesis
  proof (cases "archive_directory themeDir r1")
    case (Inl e)
    with Inr r1 show ?thesis by (simp add: archiver_def end_state_def)
  next
    case ms: (Inr ms)
    show ?thesis
    proof (cases "put themeZip (File (Zip ms)) r1")
      case None
      with Inr ms r1 show ?thesis by (simp add: archiver_def end_state_def)
    next
      case (Some r2)
      from put_frame[OF Some assms] r1 Inr ms Some show ?thesis
        by (simp add: archiver_def end_state_def console_log_def)
    qed
  qed
qed

lemma body_frame:
  assumes "y \<noteq> ''theme''" "y \<noteq> ''theme.zip''"
  shows "lookup (root (end_state (body st))) (y # q) = lookup (root st) (y # q)"
proof -
  note s = stager_frame[OF assms(1), of st q]
  show ?thesis
  proof (cases "stager st")
    case (Inl h)
    with s show ?thesis by (simp add: body_def end_state_def)
  next
    case (Inr st1)
    note n = normalizer_frame[OF assms(1), of st1 q]
    show ?thesis
    proof (cases "normalizer st1")
      case (Inl h)
      with s n Inr show ?thesis by (simp add: body_def end_state_def)
    next
      case st2: (Inr st2)
      with s n Inr archiver_frame[OF assms(2), of st2 q] show ?thesis
        by (simp add: body_def end_state_def)
    qed
  qed
qed

lemma buildTheme_root: "root (final (buildTheme r)) = root (end_state (body (start r)))"
  by (auto simp: buildTheme_def end_state_def console_error_def split: sum.splits halt.splits)

text \<open>
  C9. The two inputs are never changed: whatever the run does, and whether it ends well or
  not, every path below the template tree \<^verbatim>\<open>theme-src\<close> and below the build output
  \<^verbatim>\<open>dist/assets\<close> resolves after the run to what it resolved to before the run.
\<close>

theorem inputs_never_mutated:
  "lookup (root (final (buildTheme r))) (themeSrc @ q) = lookup r (themeSrc @ q) \<and>
   lookup (root (final (buildTheme r))) (distAssets @ q) = lookup r (distAssets @ q)"
  using body_frame[of "''theme-src''" "start r" q] body_frame[of "''dist''" "start r" "''assets'' # q"]
  by (simp add: buildTheme_root start_def)

theorem inputs_never_mutated_witness:
  "lookup (root (final (buildTheme scenario_root))) [''theme-src'', ''layout'', ''theme.liquid'']
     = Some (File (Bytes ''<html>'')) \<and>
   lookup (root (final (buildTheme scenario_root))) [''dist'', ''assets'', ''logo.png'']
     = Some (File (Bytes ''PNG''))"
  using inputs_never_mutated[of scenario_root "[''layout'', ''theme.liquid'']"]
        inputs_never_mutated[of scenario_root "[''logo.png'']"]
  by (simp add: scenario_root_def lookup.simps(2))

lemma update_fresh: "k \<notin> fst ` set ds \<Longrightarrow> AList.update k v ds = ds @ [(k, v)]"
  by (induction ds) auto

lemma copy_fresh:
  "well_formed n \<Longrightarrow> dest = None \<Longrightarrow> copy_node s d n dest = Inr n"
  "well_formed_entries es \<Longrightarrow> distinct (map fst es) \<Longrightarrow> fst ` set es \<inter> fst ` set ds = {} \<Longrightarrow>
     copy_entries s d es ds = Inr (ds @ es)"
proof (induction s d n dest and s d es ds rule: copy_node_copy_entries.induct)
  case (1 s d c dest)
  then show ?case by simp
next
  case (2 s d es dest)
  then show ?case by simp
next
  case (3 s d ds)
  then show ?case by simp
next
  case (4 s d k c es ds)
  from "4.prems" have k: "k \<notin> fst ` set ds" and none: "map_of ds k = None"
    by (auto simp: map_of_eq_None_iff)
  from "4.prems" "4.IH"(1) none have c: "copy_node (s @ [k]) (d @ [k]) c (map_of ds k) = Inr c"
    by simp
  from "4.prems" have "fst ` set es \<inter> fst ` set (AList.update k c ds) = {}"
    by (auto simp: dom_update)
  with "4.IH"(2)[OF c] "4.prems" have "copy_entries s d es (AList.update k c ds)
      = Inr (AList.update k c ds @ es)"
    by simp
  with c k show ?case by (simp add: update_fresh)
qed

lemma copy_into_empty:
  assumes "well_formed (Dir ts)"
  shows "copy_node s d (Dir ts) (Some (Dir [])) = Inr (Dir ts)"
  using copy_fresh(2)[of ts "[]" s d] assms by simp

lemma lookup_Some_is_dir: "lookup r (x # p) = Some n \<Longrightarrow> \<exists>es. r = Dir es"
  by (cases r) (auto simp: lookup.simps(2))

lemma emptyDir_ok:
  assumes "r = Dir es" "\<And>c. lookup r [x] \<noteq> Some (File c)"
  shows "\<exists>r'. emptyDir [x] r = Inr r'"
proof (cases "lookup r [x]")
  case None
  with assms(1) show ?thesis
    by (auto simp: emptyDir_def mkdirs_def lookup.simps(2) split: option.splits)
next
  case (Some n)
  with assms(2) obtain ds where n: "n = Dir ds" by (cases n) auto
  from put_exists[of r "[x]" es "Dir []"] assms(1) obtain r' where "put [x] (Dir []) r = Some r'"
    by auto
  with Some n show ?thesis by (simp add: emptyDir_def)
qed

lemma stager_Inr:
  assumes "stager st = Inr st1"
  shows "\<exists>r1 src t. emptyDir themeDir (root st) = Inr r1 \<and> lookup r1 themeSrc = Some src \<and>
           copy_node themeSrc themeDir src (Some (Dir [])) = Inr t \<and>
           put themeDir t r1 = Some (root st1) \<and> copy themeSrc themeDir r1 = Inr (root st1) \<and>
           st1 = st\<lparr>root := root st1\<rparr>"
proof -
  from assms obtain r1 where r1: "emptyDir themeDir (root st) = Inr r1"
    by (cases "emptyDir themeDir (root st)") (auto simp: stager_def await_def)
  with assms have ex: "lookup r1 themeSrc \<noteq> None"
    and cp: "await (copy themeSrc themeDir) (st\<lparr>root := r1\<rparr>) = Inr st1"
    by (auto simp: stager_def await_def existsSync_def split: if_splits)
  from ex obtain src where src: "lookup r1 themeSrc = Some src" by auto
  from cp obtain r2 where r2: "copy themeSrc themeDir r1 = Inr r2" and st1: "st1 = st\<lparr>root := r2\<rparr>"
    by (auto simp: await_Inr)
  have e: "lookup r1 themeDir = Some (Dir [])" by (rule emptyDir_same[OF r1])
  from r2 src e obtain t where "copy_node themeSrc themeDir src (Some (Dir [])) = Inr t"
    "put themeDir t r1 = Some r2"
    by (auto simp: copy_def split: if_splits sum.splits option.splits)
  with r1 src st1 r2 show ?thesis by auto
qed

lemma stager_exact:
  assumes "lookup (root st) themeSrc = Some (Dir ts)" "well_formed (Dir ts)"
    and "\<And>c. lookup (root st) themeDir \<noteq> Some (File c)"
  shows "\<exists>st1. stager st = Inr st1 \<and> lookup (root st1) themeDir = Some (Dir ts) \<and>
           st1 = st\<lparr>root := root st1\<rparr>"
proof -
  from lookup_Some_is_dir[OF assms(1)] obtain es where es: "root st = Dir es" by auto
  from emptyDir_ok[OF es assms(3)] obtain r1 where r1: "emptyDir themeDir (root st) = Inr r1"
    by auto
  have src: "lookup r1 themeSrc = Some (Dir ts)"
    using emptyDir_frame[OF r1, of "''theme-src''" "[]"] assms(1) by simp
  have e: "lookup r1 themeDir = Some (Dir [])" by (rule emptyDir_same[OF r1])
  from lookup_Some_is_dir[OF e] obtain es1 where "r1 = Dir es1" by auto
  with put_exists[of r1 themeDir es1 "Dir ts"] obtain r2 where r2: "put themeDir (Dir ts) r1 = Some r2"
    by auto
  have "copy themeSrc themeDir r1 = Inr r2"
    using src e r2 copy_into_empty[OF assms(2)] by (simp add: copy_def)
  with r1 src lookup_put_same[OF r2] show ?thesis
    by (simp add: stager_def await_def existsSync_def)
qed

lemma copy_node_onto_dir:
  assumes "copy_node s d n (Some (Dir ds)) = Inr t"
  shows "\<exists>ts. t = Dir ts"
  using assms by (cases n) (auto split: sum.splits)

text \<open>
  C7. Staging is idempotent. When the stager has run on a state and succeeded, a second
  run on the state it left succeeds and leaves that very state: the staged output, and
  the whole tree, are the same after two runs as after one. The staged output does not
  depend on what was there before: two states with the same template tree are staged to
  the same staged output.
\<close>

theorem staging_idempotent:
  assumes "stager st = Inr st1"
  shows "stager st1 = Inr st1 \<and>
         (\<forall>st' st1'. lookup (root st') themeSrc = lookup (root st) themeSrc \<and>
                      stager st' = Inr st1' \<longrightarrow>
                      lookup (root st1') themeDir = lookup (root st1) themeDir)"
proof
  from stager_Inr[OF assms] obtain r1 src t where
    r1: "emptyDir themeDir (root st) = Inr r1" and
    src: "lookup r1 themeSrc = Some src" and
    t: "copy_node themeSrc themeDir src (Some (Dir [])) = Inr t" and
    put: "put themeDir t r1 = Some (root st1)" and
    cp: "copy themeSrc themeDir r1 = Inr (root st1)" and
    st1: "st1 = st\<lparr>root := root st1\<rparr>"
    by blast
  have staged: "lookup (root st1) themeDir = Some t" by (rule lookup_put_same[OF put])
  show "stager st1 = Inr st1"
  proof -
    from copy_node_onto_dir[OF t] obtain ts where ts: "t = Dir ts" by auto
    have "lookup r1 themeDir = Some (Dir [])" by (rule emptyDir_same[OF r1])
    then have "put themeDir (Dir []) r1 = Some r1" by (rule put_triv)
    with put_put[OF put, of "Dir []"] have "put themeDir (Dir []) (root st1) = Some r1" by simp
    with staged ts have "emptyDir themeDir (root st1) = Inr r1" by (simp add: emptyDir_def)
    moreover have "st1\<lparr>root := root st1\<rparr> = st1" by simp
    ultimately show ?thesis using src cp
      by (simp add: stager_def await_def existsSync_def)
  qed
  show "\<forall>st' st1'. lookup (root st') themeSrc = lookup (root st) themeSrc \<and>
          stager st' = Inr st1' \<longrightarrow> lookup (root st1') themeDir = lookup (root st1) themeDir"
  proof (intro allI impI, elim conjE)
    fix st' st1'
    assume same: "lookup (root st') themeSrc = lookup (root st) themeSrc"
      and run: "stager st' = Inr st1'"
    from stager_Inr[OF run] obtain r1' src' t' where
      r1': "emptyDir themeDir (root st') = Inr r1'" and
      src': "lookup r1' themeSrc = Some src'" and
      t': "copy_node themeSrc themeDir src' (Some (Dir [])) = Inr t'" and
      put': "put themeDir t' r1' = Some (root st1')"
      by blast
    have "lookup r1' themeSrc = lookup r1 themeSrc"
      using emptyDir_frame[OF r1', of "''theme-src''" "[]"]
            emptyDir_frame[OF r1, of "''theme-src''" "[]"] same by simp
    with src src' t t' have "t' = t" by simp
    with lookup_put_same[OF put'] staged show "lookup (root st1') themeDir = lookup (root st1) themeDir"
      by simp
  qed
qed

theorem staging_idempotent_witness:
  "stager (start scenario_root) = Inr (end_state (stager (start scenario_root))) \<and>
   stager (end_state (stager (start scenario_root))) = Inr (end_state (stager (start scenario_root)))"
proof -
  have ok: "stager (start scenario_root) = Inr (end_state (stager (start scenario_root)))"
    by code_simp
  from staging_idempotent[OF ok] ok show ?thesis by blast
qed

lemma stager_Inl:
  assumes "stager st = Inl h"
  shows "(\<exists>e s. h = Thrown e s \<and> stdout s = stdout st \<and> stderr s = stderr st) \<or>
         (\<exists>s. h = Exited 1 s \<and> lookup (root st) themeSrc = None \<and> stdout s = stdout st \<and>
              stderr s = stderr st @ [Text ''theme-src directory not found''] \<and>
              lookup (root s) themeDir = Some (Dir []))"
proof (cases "emptyDir themeDir (root st)")
  case (Inl e)
  with assms show ?thesis by (auto simp: stager_def await_def)
next
  case (Inr r1)
  show ?thesis
  proof (cases "lookup r1 themeSrc")
    case None
    with emptyDir_frame[OF Inr, of "''theme-src''" "[]"] have "lookup (root st) themeSrc = None"
      by simp
    with None Inr assms emptyDir_same[OF Inr] show ?thesis
      by (auto simp: stager_def await_def existsSync_def console_error_def)
  next
    case (Some src)
    with Inr assms show ?thesis
      by (cases "copy themeSrc themeDir r1") (auto simp: stager_def await_def existsSync_def)
  qed
qed

lemma copyAssets_Inl:
  "copyAssets files st = Inl h \<Longrightarrow>
     \<exists>e s. h = Thrown e s \<and> stdout s = stdout st \<and> stderr s = stderr st"
proof (induction files arbitrary: st)
  case Nil
  then show ?case by simp
next
  case (Cons f files)
  show ?case
  proof (cases "copy (distAssets @ [f]) (themeAssets @ [normalizedName f]) (root st)")
    case (Inl e)
    with Cons.prems show ?thesis unfolding copyAssets_step by (auto simp: await_def)
  next
    case (Inr r1)
    with Cons.prems have "copyAssets files (st\<lparr>root := r1\<rparr>) = Inl h"
      unfolding copyAssets_step by (simp add: await_def)
    from Cons.IH[OF this] show ?thesis by simp
  qed
qed

lemma copyAssets_Inr:
  "copyAssets files st = Inr st' \<Longrightarrow> st' = st\<lparr>root := root st'\<rparr>"
proof (induction files arbitrary: st)
  case Nil
  then show ?case by simp
next
  case (Cons f files)
  show ?case
  proof (cases "copy (distAssets @ [f]) (themeAssets @ [normalizedName f]) (root st)")
    case (Inl e)
    with Cons.prems show ?thesis unfolding copyAssets_step by (auto simp: await_def)
  next
    case (Inr r1)
    with Cons.prems have "copyAssets files (st\<lparr>root := r1\<rparr>) = Inr st'"
      unfolding copyAssets_step by (simp add: await_def)
    from Cons.IH[OF this] show ?thesis by simp
  qed
qed

lemma normalizer_Inl:
  assumes "normalizer st = Inl h"
  shows "\<exists>e s. h = Thrown e s \<and> stdout s = stdout st \<and> stderr s = stderr st"
proof (cases "ensureDir themeAssets (root st)")
  case (Inl e)
  with assms show ?thesis by (auto simp: normalizer_def await_def)
next
  case (Inr r1)
  show ?thesis
  proof (cases "readdir distAssets r1")
    case (Inl e)
    with Inr assms show ?thesis by (auto simp: normalizer_def await_def)
  next
    case files: (Inr files)
    with Inr assms have "copyAssets files (st\<lparr>root := r1\<rparr>) = Inl h"
      by (simp add: normalizer_def await_def)
    from copyAssets_Inl[OF this] show ?thesis by simp
  qed
qed

lemma normalizer_Inr:
  assumes "normalizer st = Inr st'"
  shows "\<exists>r1 files. ensureDir themeAssets (root st) = Inr r1 \<and> readdir distAssets r1 = Inr files \<and>
           copyAssets files (st\<lparr>root := r1\<rparr>) = Inr st' \<and> st' = st\<lparr>root := root st'\<rparr>"
proof (cases "ensureDir themeAssets (root st)")
  case (Inl e)
  with assms show ?thesis by (auto simp: normalizer_def await_def)
next
  case (Inr r1)
  show ?thesis
  proof (cases "readdir distAssets r1")
    case (Inl e)
    with Inr assms show ?thesis by (auto simp: normalizer_def await_def)
  next
    case files: (Inr files)
    with Inr assms have c: "copyAssets files (st\<lparr>root := r1\<rparr>) = Inr st'"
      by (simp add: normalizer_def await_def)
    from copyAssets_Inr[OF this] have "st' = st\<lparr>root := root st'\<rparr>" by simp
    with Inr files c show ?thesis by blast
  qed
qed


lemma readdir_Inr: "readdir p r = Inr files \<longleftrightarrow> (\<exists>es. lookup r p = Some (Dir es) \<and> files = map fst es)"
  by (auto simp: readdir_def split: option.splits node.splits)

lemma readdir_same:
  assumes "lookup r' p = lookup r p" "readdir p r = Inr files"
  shows "readdir p r' = Inr files"
  using assms by (simp only: readdir_Inr)



lemma ensureDir_assets_ok:
  assumes "lookup r themeDir = Some (Dir ts)" "\<And>c. map_of ts ''assets'' \<noteq> Some (File c)"
  shows "\<exists>r'. ensureDir themeAssets r = Inr r'"
proof -
  from lookup_Some_is_dir[OF assms(1)] obtain es where es: "r = Dir es" by auto
  with assms(1) have t: "map_of es ''theme'' = Some (Dir ts)"
    by (auto simp: lookup.simps(2) split: option.splits)
  show ?thesis
  proof (cases "map_of ts ''assets''")
    case None
    with es t show ?thesis by (simp add: ensureDir_def mkdirs_def)
  next
    case (Some c)
    with assms(2) obtain as where "c = Dir as" by (cases c) auto
    with Some es t show ?thesis by (simp add: ensureDir_def mkdirs_def)
  qed
qed

lemma buildTheme_stager_Inl:
  assumes "stager (start r) = Inl h"
  shows "buildTheme r =
     (case h of
        Thrown e s \<Rightarrow> \<lparr>exit_status = 1, final = console_error (TextErr ''Error building theme:'' e) s\<rparr>
      | Exited n s \<Rightarrow> \<lparr>exit_status = n, final = s\<rparr>
      | Uncaught e s \<Rightarrow> \<lparr>exit_status = 1, final = console_error (UncaughtErr e) s\<rparr>)"
  using assms by (simp add: buildTheme_def body_def)

lemma buildTheme_normalizer_Inl:
  assumes "stager (start r) = Inr st1" "normalizer st1 = Inl h"
  shows "buildTheme r =
     (case h of
        Thrown e s \<Rightarrow> \<lparr>exit_status = 1, final = console_error (TextErr ''Error building theme:'' e) s\<rparr>
      | Exited n s \<Rightarrow> \<lparr>exit_status = n, final = s\<rparr>
      | Uncaught e s \<Rightarrow> \<lparr>exit_status = 1, final = console_error (UncaughtErr e) s\<rparr>)"
  using assms by (simp add: buildTheme_def body_def)

lemma stager_needs_template:
  assumes "lookup (root st) themeSrc = None"
  shows "\<exists>h. stager st = Inl h"
proof (cases "stager st")
  case (Inl h)
  then show ?thesis by simp
next
  case (Inr st1)
  from stager_Inr[OF Inr] obtain r1 src where
    r1: "emptyDir themeDir (root st) = Inr r1" and src: "lookup r1 themeSrc = Some src"
    by blast
  from emptyDir_frame[OF r1, of "''theme-src''" "[]"] src assms show ?thesis by simp
qed





text \<open>
  C1, as the script behaves. When the template tree \<^verbatim>\<open>theme-src\<close> does not exist, the run
  ends with exit status 1 and prints no success message, and every path outside the
  staged output \<^verbatim>\<open>theme\<close> resolves afterwards to what it resolved to before (so no
  archive is written). The staged output itself is cleared before the template tree is
  looked for: when the project root is a directory and \<^verbatim>\<open>theme\<close> is not a file, then
  after the run \<^verbatim>\<open>theme\<close> exists and is empty, and the error channel holds the one line
  \<^verbatim>\<open>theme-src directory not found\<close>.
\<close>

theorem missing_template_clears_staged_output:
  assumes "lookup r themeSrc = None"
  shows "exit_status (buildTheme r) = 1 \<and>
         stdout (final (buildTheme r)) = [] \<and>
         (\<forall>y q. y \<noteq> ''theme'' \<longrightarrow>
                 lookup (root (final (buildTheme r))) (y # q) = lookup r (y # q)) \<and>
         (is_dir r \<and> (\<forall>c. lookup r themeDir \<noteq> Some (File c)) \<longrightarrow>
            lookup (root (final (buildTheme r))) themeDir = Some (Dir []) \<and>
            stderr (final (buildTheme r)) = [Text ''theme-src directory not found''])"
proof -
  from stager_needs_template[of "start r"] assms obtain h where h: "stager (start r) = Inl h"
    by (auto simp: start_def)
  have frame: "lookup (root (halt_state h)) (y # q) = lookup r (y # q)" if "y \<noteq> ''theme''" for y q
    using stager_frame[OF that, of "start r" q] h by (simp add: end_state_def start_def)
  have cleared: "\<exists>s. h = Exited 1 s \<and> stderr s = [Text ''theme-src directory not found''] \<and>
                   lookup (root s) themeDir = Some (Dir [])"
    if d: "is_dir r" and nf: "\<forall>c. lookup r themeDir \<noteq> Some (File c)"
  proof -
    from d obtain es where es: "r = Dir es" by (cases r) auto
    from emptyDir_ok[OF es] nf obtain r1 where r1: "emptyDir themeDir r = Inr r1" by blast
    from emptyDir_frame[OF r1, of "''theme-src''" "[]"] assms have "lookup r1 themeSrc = None"
      by simp
    with r1 h emptyDir_same[OF r1] show ?thesis
      by (auto simp: stager_def await_def existsSync_def start_def console_error_def)
  qed
  from stager_Inl[OF h] frame cleared show ?thesis
    unfolding buildTheme_stager_Inl[OF h]
    by (auto simp: start_def console_error_def)
qed

theorem missing_template_clears_staged_output_witness:
  "lookup stale_root themeSrc = None \<and>
   exit_status (buildTheme stale_root) = 1 \<and>
   lookup (root (final (buildTheme stale_root))) themeDir = Some (Dir []) \<and>
   stderr (final (buildTheme stale_root)) = [Text ''theme-src directory not found'']"
proof -
  have a: "lookup stale_root themeSrc = None"
    by (simp add: stale_root_def lookup.simps(2))
  have b: "is_dir stale_root \<and> (\<forall>c. lookup stale_root themeDir \<noteq> Some (File c))"
    by (simp add: stale_root_def lookup.simps(2))
  from missing_template_clears_staged_output[OF a] a b show ?thesis by simp
qed

text \<open>
  C1, as the specification states it, fails: with a staged output left by an earlier run
  and no template tree, the run exits with status 1 and the staged output is no longer
  what it was.
\<close>

theorem missing_template_modifies_staged_output:
  "lookup stale_root themeSrc = None \<and>
   exit_status (buildTheme stale_root) = 1 \<and>
   lookup stale_root themeDir = Some (Dir [(''old.liquid'', File (Bytes ''stale''))]) \<and>
   lookup (root (final (buildTheme stale_root))) themeDir \<noteq> lookup stale_root themeDir"
  by code_simp

text \<open>
  C6, as the script behaves. Whenever the staging or the normalizing stage stops early,
  the run ends with exit status 1 and without a success message, in one of two ways. An
  error thrown by a file-system call of these stages reaches the \<^verbatim>\<open>catch\<close> block, which
  prints \<^verbatim>\<open>Error building theme:\<close> with that error as the only line on the error
  channel. The missing template tree is not thrown: its own check prints
  \<^verbatim>\<open>theme-src directory not found\<close> as the only line and exits, and the \<^verbatim>\<open>catch\<close>
  block does not run.
\<close>

theorem failure_reporting:
  assumes "stager (start r) = Inl h \<or> (\<exists>st1. stager (start r) = Inr st1 \<and> normalizer st1 = Inl h)"
  shows "exit_status (buildTheme r) = 1 \<and>
         stdout (final (buildTheme r)) = [] \<and>
         ((\<exists>e s. h = Thrown e s \<and>
                 final (buildTheme r) = console_error (TextErr ''Error building theme:'' e) s \<and>
                 stderr (final (buildTheme r)) = [TextErr ''Error building theme:'' e]) \<or>
          (\<exists>s. h = Exited 1 s \<and> lookup r themeSrc = None \<and> final (buildTheme r) = s \<and>
               stderr s = [Text ''theme-src directory not found'']))"
  using assms
proof (elim disjE exE conjE)
  assume h: "stager (start r) = Inl h"
  from stager_Inl[OF h] show ?thesis
    unfolding buildTheme_stager_Inl[OF h]
    by (auto simp: start_def console_error_def)
next
  fix st1
  assume s: "stager (start r) = Inr st1" and n: "normalizer st1 = Inl h"
  from stager_Inr[OF s] have st1: "stdout st1 = [] \<and> stderr st1 = []"
    by (metis (mono_tags, lifting) start_def state.select_convs(2,3) state.surjective
          state.update_convs(1))
  from normalizer_Inl[OF n] st1 show ?thesis
    unfolding buildTheme_normalizer_Inl[OF s n]
    by (auto simp: console_error_def)
qed

theorem failure_reporting_witness:
  "normalizer (end_state (stager (start unbuilt_root))) =
     Inl (Thrown (ENOENT distAssets) (end_state (normalizer (end_state (stager (start unbuilt_root)))))) \<and>
   exit_status (buildTheme unbuilt_root) = 1 \<and>
   stderr (final (buildTheme unbuilt_root)) = [TextErr ''Error building theme:'' (ENOENT distAssets)]"
proof -
  have s: "stager (start unbuilt_root) = Inr (end_state (stager (start unbuilt_root)))"
    by code_simp
  have n: "normalizer (end_state (stager (start unbuilt_root))) =
     Inl (Thrown (ENOENT distAssets) (end_state (normalizer (end_state (stager (start unbuilt_root))))))"
    by code_simp
  from s n have "stager (start unbuilt_root) =
       Inl (Thrown (ENOENT distAssets) (end_state (normalizer (end_state (stager (start unbuilt_root)))))) \<or>
     (\<exists>st1. stager (start unbuilt_root) = Inr st1 \<and> normalizer st1 =
       Inl (Thrown (ENOENT distAssets) (end_state (normalizer (end_state (stager (start unbuilt_root)))))))"
    by blast
  from failure_reporting[OF this] n show ?thesis by auto
qed

text \<open>
  C6, as the specification states it, fails: with no template tree the body of the script
  stops by \<^verbatim>\<open>process.exit(1)\<close> at the check, and the error channel holds the line of the
  check and no line of the \<^verbatim>\<open>catch\<close> block.
\<close>

theorem missing_template_bypasses_handler:
  "body (start stale_root) =
     Inl (Exited 1 \<lparr>root = Dir [(''theme'', Dir [])], stdout = [],
                    stderr = [Text ''theme-src directory not found'']\<rparr>) \<and>
   exit_status (buildTheme stale_root) = 1 \<and>
   stderr (final (buildTheme stale_root)) = [Text ''theme-src directory not found'']"
  by code_simp

lemma copy_file_result:
  assumes "copy s d r = Inr r'" "lookup r s = Some (File c)"
  shows "lookup r' d = Some (File c)"
proof -
  from copy_dest[OF assms(1)] assms(2) obtain n' where
    "copy_node s d (File c) (lookup r d) = Inr n'" "lookup r' d = Some n'"
    by auto
  with copy_node_file show ?thesis by blast
qed

lemma copy_asset_sibling:
  assumes "copy s (themeAssets @ [t']) r = Inr r'" "t' \<noteq> t"
  shows "lookup r' (themeAssets @ t # q) = lookup r (themeAssets @ t # q)"
  using copy_other[OF assms(1), of "themeAssets @ t # q"] assms(2) by simp

lemma copy_asset_elsewhere:
  assumes "copy s (themeAssets @ [t']) r = Inr r'" "x \<noteq> ''assets''"
  shows "lookup r' (''theme'' # x # q) = lookup r (''theme'' # x # q)"
  using copy_other[OF assms(1), of "''theme'' # x # q"] assms(2) by simp

lemma copyAssets_Cons_Inr:
  assumes "copyAssets (f # files) st = Inr st'"
  shows "\<exists>r1. copy (distAssets @ [f]) (themeAssets @ [normalizedName f]) (root st) = Inr r1 \<and>
           copyAssets files (st\<lparr>root := r1\<rparr>) = Inr st'"
proof (cases "copy (distAssets @ [f]) (themeAssets @ [normalizedName f]) (root st)")
  case (Inl e)
  with assms show ?thesis unfolding copyAssets_step by (simp add: await_def)
next
  case (Inr r1)
  with assms show ?thesis unfolding copyAssets_step by (simp add: await_def)
qed

lemma copyAssets_untouched:
  "copyAssets files st = Inr st' \<Longrightarrow> t \<notin> normalizedName ` set files \<Longrightarrow>
     lookup (root st') (themeAssets @ t # q) = lookup (root st) (themeAssets @ t # q)"
proof (induction files arbitrary: st)
  case Nil
  then show ?case by simp
next
  case (Cons f files)
  from copyAssets_Cons_Inr[OF Cons.prems(1)] obtain r1 where
    r1: "copy (distAssets @ [f]) (themeAssets @ [normalizedName f]) (root st) = Inr r1" and
    rest: "copyAssets files (st\<lparr>root := r1\<rparr>) = Inr st'"
    by blast
  from Cons.prems(2) have "normalizedName f \<noteq> t" "t \<notin> normalizedName ` set files" by auto
  with copy_asset_sibling[OF r1, of t q] Cons.IH[OF rest] show ?case by simp
qed

lemma copyAssets_elsewhere:
  "copyAssets files st = Inr st' \<Longrightarrow> x \<noteq> ''assets'' \<Longrightarrow>
     lookup (root st') (''theme'' # x # q) = lookup (root st) (''theme'' # x # q)"
proof (induction files arbitrary: st)
  case Nil
  then show ?case by simp
next
  case (Cons f files)
  from copyAssets_Cons_Inr[OF Cons.prems(1)] obtain r1 where
    r1: "copy (distAssets @ [f]) (themeAssets @ [normalizedName f]) (root st) = Inr r1" and
    rest: "copyAssets files (st\<lparr>root := r1\<rparr>) = Inr st'"
    by blast
  from copy_asset_elsewhere[OF r1 Cons.prems(2), of q] Cons.IH[OF rest Cons.prems(2)]
  show ?case by simp
qed

lemma copyAssets_last:
  "copyAssets files st = Inr st' \<Longrightarrow> filter (\<lambda>f. normalizedName f = t) files \<noteq> [] \<Longrightarrow>
   lookup (root st) (distAssets @ [last (filter (\<lambda>f. normalizedName f = t) files)]) = Some (File c) \<Longrightarrow>
   lookup (root st') (themeAssets @ [t]) = Some (File c)"
proof (induction files arbitrary: st)
  case Nil
  then show ?case by simp
next
  case (Cons f files)
  let ?sel = "filter (\<lambda>f. normalizedName f = t)"
  from copyAssets_Cons_Inr[OF Cons.prems(1)] obtain r1 where
    r1: "copy (distAssets @ [f]) (themeAssets @ [normalizedName f]) (root st) = Inr r1" and
    rest: "copyAssets files (st\<lparr>root := r1\<rparr>) = Inr st'"
    by blast
  have src: "lookup r1 (distAssets @ [g]) = lookup (root st) (distAssets @ [g])" for g
    using copy_frame[of _ "''theme''" _ "root st" r1 "''dist''" "[''assets'', g]"] r1 by simp
  show ?case
  proof (cases "?sel files = []")
    case False
    then have "last (?sel (f # files)) = last (?sel files)" by simp
    with Cons.prems(3) src have
      "lookup (root (st\<lparr>root := r1\<rparr>)) (distAssets @ [last (?sel files)]) = Some (File c)"
      by simp
    from Cons.IH[OF rest False this] show ?thesis .
  next
    case True
    with Cons.prems(2) have f: "normalizedName f = t" by (auto split: if_splits)
    with True have "last (?sel (f # files)) = f" by simp
    with Cons.prems(3) have "lookup (root st) (distAssets @ [f]) = Some (File c)" by simp
    from copy_file_result[OF r1 this] f have here: "lookup r1 (themeAssets @ [t]) = Some (File c)"
      by simp
    from True have "t \<notin> normalizedName ` set files"
      by (auto simp: filter_empty_conv)
    from copyAssets_untouched[OF rest this, of "[]"] here show ?thesis by simp
  qed
qed

lemma endsWith_iff: "endsWith s t \<longleftrightarrow> (\<exists>u. s = u @ t)"
proof
  assume "endsWith s t"
  then have "s = take (length s - length t) s @ t"
    by (metis append_take_drop_id endsWith_def)
  then show "\<exists>u. s = u @ t" ..
next
  assume "\<exists>u. s = u @ t"
  then show "endsWith s t" by (auto simp: endsWith_def)
qed

lemma css_not_js: "endsWith f ''.css'' \<Longrightarrow> \<not> endsWith f ''.js''"
proof
  assume "endsWith f ''.css''" "endsWith f ''.js''"
  then obtain u v where "f = (u @ ''.c'') @ ''ss''" "f = (v @ ''.'') @ ''js''"
    by (auto simp: endsWith_iff)
  then have "(u @ ''.c'') @ ''ss'' = (v @ ''.'') @ ''js''" by simp
  then have "''ss'' = ''js''" by (subst (asm) append_eq_append_conv) simp_all
  then show False by simp
qed

lemma index_css: "endsWith ''index.css'' ''.css''" "\<not> endsWith ''index.js'' ''.css''"
  "endsWith ''index.js'' ''.js''" "\<not> endsWith ''index.css'' ''.js''"
  by (simp_all add: endsWith_def)

lemma normalizedName_css: "normalizedName f = ''index.css'' \<longleftrightarrow> endsWith f ''.css''"
  using index_css by (auto simp: normalizedName_def)

lemma normalizedName_js: "normalizedName f = ''index.js'' \<longleftrightarrow> endsWith f ''.js''"
  using index_css css_not_js[of f] by (auto simp: normalizedName_def)

lemma normalizedName_other:
  assumes "\<not> endsWith t ''.css''" "\<not> endsWith t ''.js''"
  shows "normalizedName f = t \<longleftrightarrow> f = t"
  using assms index_css by (auto simp: normalizedName_def)

lemma normalizedName_image:
  "t \<in> normalizedName ` set files \<longleftrightarrow>
     (t = ''index.css'' \<and> (\<exists>f\<in>set files. endsWith f ''.css'')) \<or>
     (t = ''index.js'' \<and> (\<exists>f\<in>set files. endsWith f ''.js'')) \<or>
     (t \<in> set files \<and> \<not> endsWith t ''.css'' \<and> \<not> endsWith t ''.js'')"
proof
  assume "t \<in> normalizedName ` set files"
  then obtain f where f: "f \<in> set files" "t = normalizedName f" by auto
  then show "(t = ''index.css'' \<and> (\<exists>f\<in>set files. endsWith f ''.css'')) \<or>
     (t = ''index.js'' \<and> (\<exists>f\<in>set files. endsWith f ''.js'')) \<or>
     (t \<in> set files \<and> \<not> endsWith t ''.css'' \<and> \<not> endsWith t ''.js'')"
    by (cases "endsWith f ''.css''"; cases "endsWith f ''.js''") (auto simp: normalizedName_def)
next
  assume "(t = ''index.css'' \<and> (\<exists>f\<in>set files. endsWith f ''.css'')) \<or>
     (t = ''index.js'' \<and> (\<exists>f\<in>set files. endsWith f ''.js'')) \<or>
     (t \<in> set files \<and> \<not> endsWith t ''.css'' \<and> \<not> endsWith t ''.js'')"
  then show "t \<in> normalizedName ` set files"
  proof (elim disjE conjE bexE)
    fix f assume "t = ''index.css''" "f \<in> set files" "endsWith f ''.css''"
    then show ?thesis using normalizedName_css[of f] by force
  next
    fix f assume "t = ''index.js''" "f \<in> set files" "endsWith f ''.js''"
    then show ?thesis using normalizedName_js[of f] by force
  next
    assume "t \<in> set files" "\<not> endsWith t ''.css''" "\<not> endsWith t ''.js''"
    then show ?thesis using normalizedName_other[of t t] by force
  qed
qed

lemma ensureDir_under_assets:
  assumes "ensureDir themeAssets r = Inr r1"
  shows "lookup r1 (themeAssets @ t # q) = lookup r (themeAssets @ t # q)"
  using mkdirs_other[of themeAssets r r1 "themeAssets @ t # q"] assms by (simp add: ensureDir_def)

lemma ensureDir_elsewhere:
  assumes "ensureDir themeAssets r = Inr r1" "x \<noteq> ''assets''"
  shows "lookup r1 (''theme'' # x # q) = lookup r (''theme'' # x # q)"
  using mkdirs_other[of themeAssets r r1 "''theme'' # x # q"] assms by (simp add: ensureDir_def)

lemma ensureDir_frame:
  assumes "ensureDir themeAssets r = Inr r1" "y \<noteq> ''theme''"
  shows "lookup r1 (y # q) = lookup r (y # q)"
  using mkdirs_frame[of "''theme''" "[''assets'']" r r1 y q] assms by (simp add: ensureDir_def)

lemma normalizer_run:
  assumes "normalizer st = Inr st'" "readdir distAssets (root st) = Inr files"
  shows "\<exists>r1. ensureDir themeAssets (root st) = Inr r1 \<and>
           copyAssets files (st\<lparr>root := r1\<rparr>) = Inr st'"
proof -
  from normalizer_Inr[OF assms(1)] obtain r1 files' where
    r1: "ensureDir themeAssets (root st) = Inr r1" and
    l: "readdir distAssets r1 = Inr files'" and
    c: "copyAssets files' (st\<lparr>root := r1\<rparr>) = Inr st'"
    by blast
  from ensureDir_frame[OF r1, of "''dist''" "[''assets'']"]
  have "lookup r1 distAssets = lookup (root st) distAssets" by simp
  from readdir_same[OF this assms(2)] l have "files' = files" by simp
  with r1 c show ?thesis by blast
qed

lemma normalizer_untouched:
  assumes "normalizer st = Inr st'" "readdir distAssets (root st) = Inr files"
    and "t \<notin> normalizedName ` set files"
  shows "lookup (root st') (themeAssets @ t # q) = lookup (root st) (themeAssets @ t # q)"
proof -
  from normalizer_run[OF assms(1,2)] obtain r1 where
    r1: "ensureDir themeAssets (root st) = Inr r1" and
    c: "copyAssets files (st\<lparr>root := r1\<rparr>) = Inr st'"
    by blast
  from copyAssets_untouched[OF c assms(3), of q] ensureDir_under_assets[OF r1, of t q]
  show ?thesis by simp
qed

lemma normalizer_elsewhere:
  assumes "normalizer st = Inr st'" "x \<noteq> ''assets''"
  shows "lookup (root st') (''theme'' # x # q) = lookup (root st) (''theme'' # x # q)"
proof -
  from normalizer_Inr[OF assms(1)] obtain r1 files where
    r1: "ensureDir themeAssets (root st) = Inr r1" and
    c: "copyAssets files (st\<lparr>root := r1\<rparr>) = Inr st'"
    by blast
  from copyAssets_elsewhere[OF c assms(2), of q] ensureDir_elsewhere[OF r1 assms(2), of q]
  show ?thesis by simp
qed

lemma normalizer_last:
  assumes "normalizer st = Inr st'" "readdir distAssets (root st) = Inr files"
    and "filter (\<lambda>f. normalizedName f = t) files \<noteq> []"
    and "lookup (root st) (distAssets @ [last (filter (\<lambda>f. normalizedName f = t) files)]) = Some (File c)"
  shows "lookup (root st') (themeAssets @ [t]) = Some (File c)"
proof -
  from normalizer_run[OF assms(1,2)] obtain r1 where
    r1: "ensureDir themeAssets (root st) = Inr r1" and
    c: "copyAssets files (st\<lparr>root := r1\<rparr>) = Inr st'"
    by blast
  from ensureDir_frame[OF r1, of "''dist''"] assms(4)
  have "lookup (root (st\<lparr>root := r1\<rparr>))
          (distAssets @ [last (filter (\<lambda>f. normalizedName f = t) files)]) = Some (File c)"
    by simp
  from copyAssets_last[OF c assms(3) this] show ?thesis .
qed

lemma archiver_Inl: "archiver st = Inl h \<Longrightarrow> \<exists>e s. h = Uncaught e s"
  by (cases "createWriteStream themeZip (root st)")
     (auto simp: archiver_def split: sum.splits option.splits)

lemma archiver_Inr:
  assumes "archiver st = Inr st'"
  shows "\<exists>r1 ms. createWriteStream themeZip (root st) = Inr r1 \<and>
           archive_directory themeDir r1 = Inr ms \<and>
           put themeZip (File (Zip ms)) r1 = Some (root st') \<and>
           st' = console_log (Text ''Theme package created successfully!'') (st\<lparr>root := root st'\<rparr>)"
proof -
  from assms obtain r1 where r1: "createWriteStream themeZip (root st) = Inr r1"
    by (cases "createWriteStream themeZip (root st)") (auto simp: archiver_def)
  with assms obtain ms where ms: "archive_directory themeDir r1 = Inr ms"
    by (cases "archive_directory themeDir r1") (auto simp: archiver_def)
  with assms r1 obtain r2 where r2: "put themeZip (File (Zip ms)) r1 = Some r2"
    by (cases "put themeZip (File (Zip ms)) r1") (auto simp: archiver_def)
  with assms r1 ms have "st' = console_log (Text ''Theme package created successfully!'') (st\<lparr>root := r2\<rparr>)"
    by (simp add: archiver_def)
  moreover from this have "root st' = r2" by (simp add: console_log_def)
  ultimately show ?thesis using r1 ms r2 by auto
qed

lemma buildTheme_ok:
  assumes "exit_status (buildTheme r) = 0"
  shows "\<exists>st1 st2 st3. stager (start r) = Inr st1 \<and> normalizer st1 = Inr st2 \<and>
           archiver st2 = Inr st3 \<and> final (buildTheme r) = st3"
proof (cases "stager (start r)")
  case (Inl h)
  from stager_Inl[OF Inl] assms show ?thesis
    unfolding buildTheme_stager_Inl[OF Inl] by auto
next
  case (Inr st1)
  show ?thesis
  proof (cases "normalizer st1")
    case (Inl h)
    from normalizer_Inl[OF Inl] assms show ?thesis
      unfolding buildTheme_normalizer_Inl[OF Inr Inl] by auto
  next
    case st2: (Inr st2)
    show ?thesis
    proof (cases "archiver st2")
      case (Inl h)
      from archiver_Inl[OF Inl] Inr st2 Inl assms show ?thesis
        by (auto simp: buildTheme_def body_def)
    next
      case st3: (Inr st3)
      with Inr st2 show ?thesis by (simp add: buildTheme_def body_def)
    qed
  qed
qed

lemma stager_copy_exact:
  assumes "stager st = Inr st1" "lookup (root st) themeSrc = Some (Dir ts)" "well_formed (Dir ts)"
  shows "lookup (root st1) themeDir = Some (Dir ts)"
proof -
  from stager_Inr[OF assms(1)] obtain r1 src t where
    r1: "emptyDir themeDir (root st) = Inr r1" and
    src: "lookup r1 themeSrc = Some src" and
    t: "copy_node themeSrc themeDir src (Some (Dir [])) = Inr t" and
    put: "put themeDir t r1 = Some (root st1)"
    by blast
  from emptyDir_frame[OF r1, of "''theme-src''" "[]"] src assms(2) have "src = Dir ts" by simp
  with t copy_into_empty[OF assms(3), of themeSrc themeDir] have "t = Dir ts" by simp
  with lookup_put_same[OF put] show ?thesis by simp
qed

text \<open>
  A run that ends with status 0 went through the three stages; the staged output in the
  final tree is the one the normalizer left, and the build output seen by the normalizer
  is the one of the start.
\<close>

lemma run_ok:
  assumes "exit_status (buildTheme r) = 0"
  shows "\<exists>st1 st2. stager (start r) = Inr st1 \<and> normalizer st1 = Inr st2 \<and>
           (\<forall>q. lookup (root (final (buildTheme r))) (''theme'' # q) = lookup (root st2) (''theme'' # q)) \<and>
           (\<forall>q. lookup (root st1) (''dist'' # q) = lookup r (''dist'' # q))"
proof -
  from buildTheme_ok[OF assms] obtain st1 st2 st3 where
    s: "stager (start r) = Inr st1" and n: "normalizer st1 = Inr st2" and
    a: "archiver st2 = Inr st3" and f: "final (buildTheme r) = st3"
    by blast
  have "lookup (root st3) (''theme'' # q) = lookup (root st2) (''theme'' # q)" for q
    using archiver_frame[of "''theme''" st2 q] a by (simp add: end_state_def)
  moreover have "lookup (root st1) (''dist'' # q) = lookup r (''dist'' # q)" for q
    using stager_frame[of "''dist''" "start r" q] s by (simp add: end_state_def start_def)
  ultimately show ?thesis using s n f by auto
qed

lemma run_last:
  assumes "exit_status (buildTheme r) = 0" "readdir distAssets r = Inr files"
    and "filter (\<lambda>f. normalizedName f = t) files \<noteq> []"
    and "lookup r (distAssets @ [last (filter (\<lambda>f. normalizedName f = t) files)]) = Some (File c)"
  shows "lookup (root (final (buildTheme r))) (themeAssets @ [t]) = Some (File c)"
proof -
  from run_ok[OF assms(1)] obtain st1 st2 where
    s: "stager (start r) = Inr st1" and n: "normalizer st1 = Inr st2" and
    th: "\<And>q. lookup (root (final (buildTheme r))) (''theme'' # q) = lookup (root st2) (''theme'' # q)" and
    di: "\<And>q. lookup (root st1) (''dist'' # q) = lookup r (''dist'' # q)"
    by blast
  from di[of "[''assets'']"] assms(2) have l: "readdir distAssets (root st1) = Inr files"
    by (rule readdir_same)
  from di assms(4) have
    "lookup (root st1) (distAssets @ [last (filter (\<lambda>f. normalizedName f = t) files)]) = Some (File c)"
    by simp
  from normalizer_last[OF n l assms(3) this] th[of "[''assets'', t]"] show ?thesis by simp
qed

lemma lookup_entry: "lookup (Dir ds) [f] = map_of ds f"
  by (simp add: lookup.simps(2) split: option.splits)

lemma listed:
  assumes "lookup r (p @ [f]) = Some n"
  shows "\<exists>ds. lookup r p = Some (Dir ds) \<and> map_of ds f = Some n \<and>
           readdir p r = Inr (map fst ds) \<and> f \<in> set (map fst ds)"
proof -
  from assms obtain d where d: "lookup r p = Some d" "lookup d [f] = Some n"
    by (auto simp: lookup_append split: option.splits)
  from lookup_Some_is_dir[OF d(2)] obtain ds where ds: "d = Dir ds" by auto
  with d(2) have m: "map_of ds f = Some n" by (simp add: lookup_entry)
  then have "f \<in> set (map fst ds)" by (force dest: map_of_SomeD)
  with d(1) ds m show ?thesis by (simp add: readdir_def)
qed

lemma lookup_listed:
  assumes "lookup r p = Some (Dir ds)"
  shows "lookup r (p @ [f]) = map_of ds f"
  using assms by (simp add: lookup_append lookup_entry)

lemma other_last:
  assumes "f \<in> set files" "\<not> endsWith f ''.css''" "\<not> endsWith f ''.js''"
  shows "filter (\<lambda>g. normalizedName g = f) files \<noteq> [] \<and>
         last (filter (\<lambda>g. normalizedName g = f) files) = f"
proof -
  have eq: "filter (\<lambda>g. normalizedName g = f) files = filter (\<lambda>g. g = f) files"
    using normalizedName_other[OF assms(2,3)] by simp
  from assms(1) have ne: "filter (\<lambda>g. g = f) files \<noteq> []" by (auto simp: filter_empty_conv)
  from last_in_set[OF ne] have "last (filter (\<lambda>g. g = f) files) = f" by simp
  with eq ne show ?thesis by simp
qed

text \<open>
  C2. The normalizer sorts the entries of the build output by the end of their names.
  For a run that ends with status 0, with \<open>files\<close> the listing of \<^verbatim>\<open>dist/assets\<close> (one
  level, in listing order): the staged \<^verbatim>\<open>assets/index.css\<close> holds the content of the
  last listed file whose name ends in \<^verbatim>\<open>.css\<close>, the staged \<^verbatim>\<open>assets/index.js\<close> the
  content of the last listed file whose name ends in \<^verbatim>\<open>.js\<close>, and a file with any
  other name is staged under its own name with its content. What stood at the target
  before is replaced.
\<close>

theorem asset_classification:
  assumes "exit_status (buildTheme r) = 0" "readdir distAssets r = Inr files"
  shows "(\<forall>c. filter (\<lambda>f. endsWith f ''.css'') files \<noteq> [] \<and>
              lookup r (distAssets @ [last (filter (\<lambda>f. endsWith f ''.css'') files)]) = Some (File c) \<longrightarrow>
              lookup (root (final (buildTheme r))) (themeAssets @ [''index.css'']) = Some (File c)) \<and>
         (\<forall>c. filter (\<lambda>f. endsWith f ''.js'') files \<noteq> [] \<and>
              lookup r (distAssets @ [last (filter (\<lambda>f. endsWith f ''.js'') files)]) = Some (File c) \<longrightarrow>
              lookup (root (final (buildTheme r))) (themeAssets @ [''index.js'']) = Some (File c)) \<and>
         (\<forall>f c. f \<in> set files \<and> \<not> endsWith f ''.css'' \<and> \<not> endsWith f ''.js'' \<and>
                lookup r (distAssets @ [f]) = Some (File c) \<longrightarrow>
                lookup (root (final (buildTheme r))) (themeAssets @ [f]) = Some (File c))"
proof (intro conjI allI impI; elim conjE)
  fix c
  assume "filter (\<lambda>f. endsWith f ''.css'') files \<noteq> []"
    "lookup r (distAssets @ [last (filter (\<lambda>f. endsWith f ''.css'') files)]) = Some (File c)"
  with run_last[OF assms, of "''index.css''" c]
  show "lookup (root (final (buildTheme r))) (themeAssets @ [''index.css'']) = Some (File c)"
    by (simp add: normalizedName_css)
next
  fix c
  assume "filter (\<lambda>f. endsWith f ''.js'') files \<noteq> []"
    "lookup r (distAssets @ [last (filter (\<lambda>f. endsWith f ''.js'') files)]) = Some (File c)"
  with run_last[OF assms, of "''index.js''" c]
  show "lookup (root (final (buildTheme r))) (themeAssets @ [''index.js'']) = Some (File c)"
    by (simp add: normalizedName_js)
next
  fix f c
  assume f: "f \<in> set files" "\<not> endsWith f ''.css''" "\<not> endsWith f ''.js''"
    and c: "lookup r (distAssets @ [f]) = Some (File c)"
  from other_last[OF f] c run_last[OF assms, of f c]
  show "lookup (root (final (buildTheme r))) (themeAssets @ [f]) = Some (File c)"
    by simp
qed

theorem asset_classification_witness:
  "exit_status (buildTheme chunked_root) = 0 \<and>
   readdir distAssets chunked_root = Inr [''a.css'', ''a.js'', ''b.css'', ''font.woff'', ''b.js''] \<and>
   lookup (root (final (buildTheme chunked_root))) (themeAssets @ [''index.css''])
     = Some (File (Bytes ''second css'')) \<and>
   lookup (root (final (buildTheme chunked_root))) (themeAssets @ [''index.js''])
     = Some (File (Bytes ''second js'')) \<and>
   lookup (root (final (buildTheme chunked_root))) (themeAssets @ [''font.woff''])
     = Some (File (Bytes ''font''))"
proof -
  have ok: "exit_status (buildTheme chunked_root) = 0" by code_simp
  have l: "readdir distAssets chunked_root = Inr [''a.css'', ''a.js'', ''b.css'', ''font.woff'', ''b.js'']"
    by (simp add: chunked_root_def readdir_def lookup.simps(2))
  have src: "lookup chunked_root (distAssets @ [''b.css'']) = Some (File (Bytes ''second css''))"
    "lookup chunked_root (distAssets @ [''b.js'']) = Some (File (Bytes ''second js''))"
    "lookup chunked_root (distAssets @ [''font.woff'']) = Some (File (Bytes ''font''))"
    by (simp_all add: chunked_root_def lookup.simps(2))
  from asset_classification[OF ok l] src ok l show ?thesis
    by (simp add: endsWith_def)
qed

text \<open>
  C10. A file of the build output whose name ends neither in \<^verbatim>\<open>.css\<close> nor in \<^verbatim>\<open>.js\<close>
  replaces a file of the same name that the copy of the template tree has placed in the
  staged \<^verbatim>\<open>assets\<close> directory. For a run that ends with status 0 and a well-formed
  template tree with a file \<^verbatim>\<open>assets/f\<close>: after staging the staged \<^verbatim>\<open>assets/f\<close> holds the
  content of the template's file, and at the end of the run it holds the content of the
  file \<^verbatim>\<open>f\<close> of the build output.
\<close>

theorem build_output_overwrites_template_asset:
  assumes "exit_status (buildTheme r) = 0"
    and "lookup r themeSrc = Some (Dir ts)" "well_formed (Dir ts)"
    and "lookup (Dir ts) [''assets'', f] = Some (File c0)"
    and "lookup r (distAssets @ [f]) = Some (File c)"
    and "\<not> endsWith f ''.css''" "\<not> endsWith f ''.js''"
  shows "\<exists>st1. stager (start r) = Inr st1 \<and>
           lookup (root st1) (themeAssets @ [f]) = Some (File c0) \<and>
           lookup (root (final (buildTheme r))) (themeAssets @ [f]) = Some (File c)"
proof -
  from run_ok[OF assms(1)] obtain st1 where s: "stager (start r) = Inr st1" by blast
  from stager_copy_exact[OF s] assms(2,3) have "lookup (root st1) themeDir = Some (Dir ts)"
    by (simp add: start_def)
  then have "lookup (root st1) (themeDir @ [''assets'', f]) = lookup (Dir ts) [''assets'', f]"
    by (simp only: lookup_append option.case)
  with assms(4) have staged: "lookup (root st1) (themeAssets @ [f]) = Some (File c0)" by simp
  from listed[OF assms(5)] obtain ds :: "(name \<times> node) list" where
    l: "readdir distAssets r = Inr (map fst ds)" and f: "f \<in> set (map fst ds)"
    by blast
  from other_last[OF f assms(6,7)] assms(5) run_last[OF assms(1) l, of f c]
  have "lookup (root (final (buildTheme r))) (themeAssets @ [f]) = Some (File c)" by simp
  with s staged show ?thesis by blast
qed

theorem build_output_overwrites_template_asset_witness:
  "stager (start template_assets_root) = Inr (end_state (stager (start template_assets_root))) \<and>
   lookup (root (end_state (stager (start template_assets_root)))) (themeAssets @ [''logo.png''])
     = Some (File (Bytes ''template logo'')) \<and>
   lookup (root (final (buildTheme template_assets_root))) (themeAssets @ [''logo.png''])
     = Some (File (Bytes ''PNG''))"
proof -
  have ok: "exit_status (buildTheme template_assets_root) = 0" by code_simp
  have tpl: "lookup template_assets_root themeSrc =
      Some (Dir [(''layout'', Dir [(''theme.liquid'', File (Bytes ''<html>''))]),
                 (''assets'', Dir [(''extra.liquid'', File (Bytes ''snippet'')),
                                   (''logo.png'', File (Bytes ''template logo''))])])"
    by (simp add: template_assets_root_def lookup.simps(2))
  have wf: "well_formed
      (Dir [(''layout'', Dir [(''theme.liquid'', File (Bytes ''<html>''))]),
            (''assets'', Dir [(''extra.liquid'', File (Bytes ''snippet'')),
                              (''logo.png'', File (Bytes ''template logo''))])])"
    by simp
  have c0: "lookup
      (Dir [(''layout'', Dir [(''theme.liquid'', File (Bytes ''<html>''))]),
            (''assets'', Dir [(''extra.liquid'', File (Bytes ''snippet'')),
                              (''logo.png'', File (Bytes ''template logo''))])])
      [''assets'', ''logo.png''] = Some (File (Bytes ''template logo''))"
    by (simp add: lookup.simps(2))
  have c: "lookup template_assets_root (distAssets @ [''logo.png'']) = Some (File (Bytes ''PNG''))"
    by (simp add: template_assets_root_def lookup.simps(2))
  have n: "\<not> endsWith ''logo.png'' ''.css''" "\<not> endsWith ''logo.png'' ''.js''"
    by (simp_all add: endsWith_def)
  from build_output_overwrites_template_asset[OF ok tpl wf c0 c n]
  show ?thesis by (auto simp: end_state_def)
qed

lemma singleton_filter:
  assumes "filter P xs = [x]"
  shows "x \<in> set xs \<and> P x \<and> filter P xs \<noteq> [] \<and> last (filter P xs) = x"
proof -
  have "x \<in> set (filter P xs)" using assms by simp
  then have "x \<in> set xs \<and> P x" by simp
  with assms show ?thesis by simp
qed

text \<open>
  C3, as the script behaves. Take a run that ends with status 0, a well-formed template
  tree, and a build output whose entries are all files, exactly one of them with a name
  ending in \<^verbatim>\<open>.css\<close> and exactly one with a name ending in \<^verbatim>\<open>.js\<close>. Then the staged
  \<^verbatim>\<open>assets\<close> directory holds \<^verbatim>\<open>index.css\<close> with the content of the style sheet,
  \<^verbatim>\<open>index.js\<close> with the content of the script, and every other file of the build output
  under its own name with its own content. Any further entry of the staged \<^verbatim>\<open>assets\<close>
  directory is the entry of that name in the \<^verbatim>\<open>assets\<close> directory of the template tree,
  and there is none when the template tree has none: only then are the normalized build
  files exactly the staged assets.
\<close>

theorem single_asset_normalization:
  assumes ok: "exit_status (buildTheme r) = 0"
    and tpl: "lookup r themeSrc = Some (Dir ts)" "well_formed (Dir ts)"
    and dist: "lookup r distAssets = Some (Dir ds)"
    and files: "\<forall>f\<in>set (map fst ds). \<exists>c. map_of ds f = Some (File c)"
    and css: "filter (\<lambda>f. endsWith f ''.css'') (map fst ds) = [cssFile]"
    and js: "filter (\<lambda>f. endsWith f ''.js'') (map fst ds) = [jsFile]"
  shows "lookup (root (final (buildTheme r))) (themeAssets @ [t]) =
           (if t = ''index.css'' then map_of ds cssFile
            else if t = ''index.js'' then map_of ds jsFile
            else if t \<in> set (map fst ds) \<and> \<not> endsWith t ''.css'' \<and> \<not> endsWith t ''.js''
                 then map_of ds t
            else lookup (Dir ts) [''assets'', t])"
proof -
  let ?F = "root (final (buildTheme r))"
  let ?files = "map fst ds"
  have l: "readdir distAssets r = Inr ?files" using dist by (simp add: readdir_def)
  have src: "lookup r (distAssets @ [f]) = map_of ds f" for f
    by (rule lookup_listed[OF dist])
  have copied: "lookup ?F (themeAssets @ [u]) = map_of ds g"
    if "filter (\<lambda>f. normalizedName f = u) ?files \<noteq> []"
       "last (filter (\<lambda>f. normalizedName f = u) ?files) = g" "g \<in> set ?files" for u g
  proof -
    from files that(3) obtain c where c: "map_of ds g = Some (File c)" by blast
    with src[of g] that(2) have
      "lookup r (distAssets @ [last (filter (\<lambda>f. normalizedName f = u) ?files)]) = Some (File c)"
      by simp
    from run_last[OF ok l that(1) this] c show ?thesis by simp
  qed
  show ?thesis
  proof (cases "t \<in> normalizedName ` set ?files")
    case True
    then consider
        (css) "t = ''index.css''"
      | (js) "t = ''index.js''" "t \<noteq> ''index.css''"
      | (other) "t \<in> set ?files" "\<not> endsWith t ''.css''" "\<not> endsWith t ''.js''"
      unfolding normalizedName_image by blast
    then show ?thesis
    proof cases
      case css
      from singleton_filter[OF assms(6)] copied[of "''index.css''" cssFile] css
      show ?thesis by (simp add: normalizedName_css)
    next
      case js
      from singleton_filter[OF assms(7)] copied[of "''index.js''" jsFile] js
      show ?thesis by (simp add: normalizedName_js)
    next
      case other
      have "t \<noteq> ''index.css''" "t \<noteq> ''index.js''" using other index_css by auto
      with other_last[OF other] copied[of t t] other show ?thesis by simp
    qed
  next
    case False
    then have branch: "t \<noteq> ''index.css''" "t \<noteq> ''index.js''"
      "\<not> (t \<in> set ?files \<and> \<not> endsWith t ''.css'' \<and> \<not> endsWith t ''.js'')"
      using singleton_filter[OF assms(6)] singleton_filter[OF assms(7)]
      unfolding normalizedName_image
      by blast+
    from run_ok[OF ok] obtain st1 st2 where
      s: "stager (start r) = Inr st1" and n: "normalizer st1 = Inr st2" and
      th: "\<And>q. lookup ?F (''theme'' # q) = lookup (root st2) (''theme'' # q)" and
      di: "\<And>q. lookup (root st1) (''dist'' # q) = lookup r (''dist'' # q)"
      by blast
    from di[of "[''assets'']"] l have l1: "readdir distAssets (root st1) = Inr ?files"
      by (rule readdir_same)
    from stager_copy_exact[OF s] tpl have "lookup (root st1) themeDir = Some (Dir ts)"
      by (simp add: start_def)
    then have "lookup (root st1) (themeDir @ [''assets'', t]) = lookup (Dir ts) [''assets'', t]"
      by (simp only: lookup_append option.case)
    with normalizer_untouched[OF n l1 False, of "[]"] th[of "[''assets'', t]"]
    have "lookup ?F (themeAssets @ [t]) = lookup (Dir ts) [''assets'', t]" by simp
    with branch show ?thesis by auto
  qed
qed

theorem single_asset_normalization_witness:
  "exit_status (buildTheme template_assets_root) = 0 \<and>
   lookup (root (final (buildTheme template_assets_root))) (themeAssets @ [''index.css''])
     = Some (File (Bytes ''body{}'')) \<and>
   lookup (root (final (buildTheme template_assets_root))) (themeAssets @ [''index.js''])
     = Some (File (Bytes ''main()'')) \<and>
   lookup (root (final (buildTheme template_assets_root))) (themeAssets @ [''logo.png''])
     = Some (File (Bytes ''PNG'')) \<and>
   lookup (root (final (buildTheme template_assets_root))) (themeAssets @ [''extra.liquid''])
     = Some (File (Bytes ''snippet'')) \<and>
   lookup (root (final (buildTheme template_assets_root))) (themeAssets @ [''bundle.a1b2.css''])
     = None"
proof -
  let ?ts = "[(''layout'', Dir [(''theme.liquid'', File (Bytes ''<html>''))]),
              (''assets'', Dir [(''extra.liquid'', File (Bytes ''snippet'')),
                                (''logo.png'', File (Bytes ''template logo''))])]"
  let ?ds = "[(''bundle.a1b2.css'', File (Bytes ''body{}'')),
              (''bundle.a1b2.js'', File (Bytes ''main()'')),
              (''logo.png'', File (Bytes ''PNG''))]"
  have ok: "exit_status (buildTheme template_assets_root) = 0" by code_simp
  have tpl: "lookup template_assets_root themeSrc = Some (Dir ?ts)"
    by (simp add: template_assets_root_def lookup.simps(2))
  have wf: "well_formed (Dir ?ts)" by simp
  have dist: "lookup template_assets_root distAssets = Some (Dir ?ds)"
    by (simp add: template_assets_root_def lookup.simps(2))
  have files: "\<forall>f\<in>set (map fst ?ds). \<exists>c. map_of ?ds f = Some (File c)" by simp
  have css: "filter (\<lambda>f. endsWith f ''.css'') (map fst ?ds) = [''bundle.a1b2.css'']"
    by (simp add: endsWith_def)
  have js: "filter (\<lambda>f. endsWith f ''.js'') (map fst ?ds) = [''bundle.a1b2.js'']"
    by (simp add: endsWith_def)
  note inst = single_asset_normalization[OF ok tpl wf dist files css js]
  from inst[of "''index.css''"] inst[of "''index.js''"] inst[of "''logo.png''"]
       inst[of "''extra.liquid''"] inst[of "''bundle.a1b2.css''"] ok
  show ?thesis by (simp add: endsWith_def lookup.simps(2))
qed

text \<open>
  C3, as the specification states it, fails: the build output holds one style sheet, one
  script and one other file, and the staged \<^verbatim>\<open>assets\<close> directory holds a fourth entry,
  which comes from the template tree.
\<close>

theorem template_assets_stay_staged:
  "exit_status (buildTheme template_assets_root) = 0 \<and>
   readdir distAssets template_assets_root = Inr [''bundle.a1b2.css'', ''bundle.a1b2.js'', ''logo.png''] \<and>
   readdir themeAssets (root (final (buildTheme template_assets_root)))
     = Inr [''extra.liquid'', ''logo.png'', ''index.css'', ''index.js'']"
  by code_simp

lemma well_formed_entries_iff: "well_formed_entries es \<longleftrightarrow> (\<forall>(k, n) \<in> set es. well_formed n)"
  by (induction es) auto

lemma well_formed_map_of:
  "well_formed_entries es \<Longrightarrow> map_of es k = Some n \<Longrightarrow> well_formed n"
  by (auto simp: well_formed_entries_iff dest: map_of_SomeD)

lemma well_formed_update:
  "well_formed_entries es \<Longrightarrow> well_formed v \<Longrightarrow> well_formed_entries (AList.update k v es)"
  by (induction es) auto

lemma well_formed_Dir_update:
  "well_formed (Dir es) \<Longrightarrow> well_formed v \<Longrightarrow> well_formed (Dir (AList.update k v es))"
  by (simp add: well_formed_update distinct_update)

lemma well_formed_lookup:
  "well_formed r \<Longrightarrow> lookup r p = Some n \<Longrightarrow> well_formed n"
proof (induction p arbitrary: r)
  case Nil
  then show ?case by simp
next
  case (Cons x xs)
  then show ?case
    by (cases r) (auto simp: lookup.simps(2) split: option.splits dest: well_formed_map_of)
qed

lemma well_formed_put:
  "well_formed r \<Longrightarrow> well_formed new \<Longrightarrow> put p new r = Some r' \<Longrightarrow> well_formed r'"
proof (induction p arbitrary: r r')
  case Nil
  then show ?case by simp
next
  case (Cons x xs)
  show ?case
  proof (cases r)
    case (File c)
    with Cons.prems show ?thesis by (simp add: put.simps(2))
  next
    case (Dir es)
    show ?thesis
    proof (cases "xs = []")
      case True
      with Cons.prems Dir have "r' = Dir (AList.update x new es)"
        by (auto simp: put.simps(2))
      with well_formed_Dir_update[of es new x] Cons.prems(1,2) Dir show ?thesis by simp
    next
      case False
      with Cons.prems Dir obtain c c' where
        c: "map_of es x = Some c" "put xs new c = Some c'" "r' = Dir (AList.update x c' es)"
        by (auto simp: put.simps(2) split: option.splits)
      from Cons.prems(1) Dir c(1) have "well_formed c" by (auto dest: well_formed_map_of)
      from Cons.IH[OF this Cons.prems(2) c(2)] have "well_formed c'" .
      with well_formed_Dir_update[of es c' x] Cons.prems(1) Dir c(3) show ?thesis by simp
    qed
  qed
qed

lemma well_formed_mkdirs_node:
  "well_formed r \<Longrightarrow> mkdirs_node p r = Some r' \<Longrightarrow> well_formed r'"
proof (induction p r arbitrary: r' rule: mkdirs_node.induct)
  case (1 p c)
  then show ?case by simp
next
  case (2 es)
  then show ?case by auto
next
  case (3 x xs es)
  from "3.prems"(2) obtain c' where
    c: "mkdirs_node xs (case map_of es x of None \<Rightarrow> Dir [] | Some c \<Rightarrow> c) = Some c'"
       "r' = Dir (AList.update x c' es)"
    by (auto split: option.splits)
  have "well_formed (case map_of es x of None \<Rightarrow> Dir [] | Some c \<Rightarrow> c)"
    using "3.prems"(1) by (auto split: option.splits dest: well_formed_map_of)
  from "3.IH"[OF this c(1)] have "well_formed c'" .
  with well_formed_Dir_update[of es c' x] "3.prems"(1) c(2) show ?case by simp
qed

lemma well_formed_copy:
  "well_formed n \<Longrightarrow> (\<And>d0. dest = Some d0 \<Longrightarrow> well_formed d0) \<Longrightarrow>
     copy_node s d n dest = Inr n' \<Longrightarrow> well_formed n'"
  "well_formed_entries es \<Longrightarrow> well_formed (Dir ds) \<Longrightarrow>
     copy_entries s d es ds = Inr ds' \<Longrightarrow> well_formed (Dir ds')"
proof (induction s d n dest and s d es ds arbitrary: n' and ds' rule: copy_node_copy_entries.induct)
  case (1 s d c dest)
  then show ?case by (auto split: option.splits node.splits)
next
  case (2 s d es dest)
  show ?case
  proof (cases dest)
    case None
    with "2.prems"(3) obtain ds' where ds': "copy_entries s d es [] = Inr ds'" "n' = Dir ds'"
      by (cases "copy_entries s d es []") auto
    from "2.IH"(1)[OF None _ _ ds'(1)] "2.prems"(1) ds'(2) show ?thesis by simp
  next
    case (Some d0)
    show ?thesis
    proof (cases d0)
      case (File c)
      with Some "2.prems"(3) show ?thesis by simp
    next
      case (Dir ds)
      with Some "2.prems"(3) obtain ds' where ds': "copy_entries s d es ds = Inr ds'" "n' = Dir ds'"
        by (cases "copy_entries s d es ds") auto
      from "2.prems"(2)[OF Some] Dir have "well_formed (Dir ds)" by simp
      from "2.IH"(2)[OF Some Dir _ this ds'(1)] "2.prems"(1) ds'(2) show ?thesis by simp
    qed
  qed
next
  case (3 s d ds)
  then show ?case by simp
next
  case (4 s d k c es ds)
  from "4.prems"(3) obtain c' where
    c': "copy_node (s @ [k]) (d @ [k]) c (map_of ds k) = Inr c'"
        "copy_entries s d es (AList.update k c' ds) = Inr ds'"
    by (cases "copy_node (s @ [k]) (d @ [k]) c (map_of ds k)") auto
  have "well_formed d0" if "map_of ds k = Some d0" for d0
    using that "4.prems"(2) by (auto dest: well_formed_map_of)
  from "4.IH"(1)[OF _ this c'(1)] "4.prems"(1) have wc: "well_formed c'" by simp
  from "4.prems"(2) wc have "well_formed (Dir (AList.update k c' ds))"
    by (rule well_formed_Dir_update)
  from "4.IH"(2)[OF c'(1) _ this c'(2)] "4.prems"(1) show ?case by simp
qed

lemma well_formed_mkdirs: "well_formed r \<Longrightarrow> mkdirs p r = Inr r' \<Longrightarrow> well_formed r'"
  by (auto simp: mkdirs_def split: option.splits dest: well_formed_mkdirs_node)

lemma well_formed_emptyDir:
  assumes "well_formed r" "emptyDir p r = Inr r'"
  shows "well_formed r'"
proof (cases "\<exists>es. lookup r p = Some (Dir es)")
  case True
  with assms(2) have "put p (Dir []) r = Some r'"
    by (auto simp: emptyDir_def split: option.splits)
  from well_formed_put[OF assms(1) _ this] show ?thesis by simp
next
  case False
  with assms(2) have "mkdirs p r = Inr r'"
    by (auto simp: emptyDir_def split: option.splits node.splits)
  from well_formed_mkdirs[OF assms(1) this] show ?thesis .
qed

lemma well_formed_copy_op:
  assumes "well_formed r" "copy s d r = Inr r'"
  shows "well_formed r'"
proof -
  from assms(2) obtain n r1 n' where
    n: "lookup r s = Some n"
    and r1: "(if lookup r (butlast d) = None then mkdirs (butlast d) r else Inr r) = Inr r1"
    and cn: "copy_node s d n (lookup r1 d) = Inr n'"
    and put: "put d n' r1 = Some r'"
    by (auto simp: copy_def split: option.splits if_splits sum.splits)
  from r1 assms(1) have w1: "well_formed r1"
    by (auto split: if_splits dest: well_formed_mkdirs)
  from well_formed_lookup[OF assms(1) n] have wn: "well_formed n" .
  have "well_formed d0" if "lookup r1 d = Some d0" for d0
    using well_formed_lookup[OF w1 that] .
  from well_formed_copy(1)[OF wn this cn] have "well_formed n'" by simp
  from well_formed_put[OF w1 this put] show ?thesis .
qed

lemma well_formed_stager:
  assumes "well_formed (root st)" "stager st = Inr st1"
  shows "well_formed (root st1)"
proof -
  from stager_Inr[OF assms(2)] obtain r1 where
    r1: "emptyDir themeDir (root st) = Inr r1" and
    cp: "copy themeSrc themeDir r1 = Inr (root st1)"
    by blast
  from well_formed_copy_op[OF well_formed_emptyDir[OF assms(1) r1] cp] show ?thesis .
qed

lemma well_formed_copyAssets:
  "well_formed (root st) \<Longrightarrow> copyAssets files st = Inr st' \<Longrightarrow> well_formed (root st')"
proof (induction files arbitrary: st)
  case Nil
  then show ?case by simp
next
  case (Cons f files)
  from copyAssets_Cons_Inr[OF Cons.prems(2)] obtain r1 where
    r1: "copy (distAssets @ [f]) (themeAssets @ [normalizedName f]) (root st) = Inr r1" and
    rest: "copyAssets files (st\<lparr>root := r1\<rparr>) = Inr st'"
    by blast
  from well_formed_copy_op[OF Cons.prems(1) r1] Cons.IH[OF _ rest] show ?case by simp
qed

lemma well_formed_normalizer:
  assumes "well_formed (root st)" "normalizer st = Inr st'"
  shows "well_formed (root st')"
proof -
  from normalizer_Inr[OF assms(2)] obtain r1 files where
    r1: "ensureDir themeAssets (root st) = Inr r1" and
    c: "copyAssets files (st\<lparr>root := r1\<rparr>) = Inr st'"
    by blast
  from r1 assms(1) have "well_formed r1" by (auto simp: ensureDir_def dest: well_formed_mkdirs)
  with well_formed_copyAssets[OF _ c] show ?thesis by simp
qed

lemma lookup_Dir_Cons:
  "lookup (Dir es) (k # q) = (case map_of es k of None \<Rightarrow> None | Some n \<Rightarrow> lookup n q)"
  by (simp add: lookup.simps(2))

lemma lookup_File: "lookup (File c) q = Some n \<longleftrightarrow> q = [] \<and> n = File c"
  by (cases q) (auto simp: lookup.simps(2))

text \<open>
  An entry is in the walk of a well-formed node exactly when its path leads to a node
  below the start of the walk and its kind is the kind of that node.
\<close>

lemma members_iff:
  "well_formed n \<Longrightarrow>
     (x, m) \<in> set (members p n) \<longleftrightarrow>
       (\<exists>q n'. x = p @ q \<and> lookup n q = Some n' \<and> entry_of n' = m)"
  "well_formed (Dir es) \<Longrightarrow>
     (x, m) \<in> set (members_entries p es) \<longleftrightarrow>
       (\<exists>k q n n'. x = p @ k # q \<and> map_of es k = Some n \<and> lookup n q = Some n' \<and>
                    entry_of n' = m)"
proof (induction p n and p es arbitrary: x m and x m rule: members_members_entries.induct)
  case (1 p c0)
  show ?case by (auto simp: lookup_File)
next
  case (2 p es)
  note rest = "2.IH"[OF "2.prems", of x m]
  show ?case
  proof
    assume "(x, m) \<in> set (members p (Dir es))"
    then consider "x = p" "m = DirMember" | "(x, m) \<in> set (members_entries p es)" by auto
    then show "\<exists>q n'. x = p @ q \<and> lookup (Dir es) q = Some n' \<and> entry_of n' = m"
    proof cases
      case 1
      then show ?thesis by (intro exI[of _ "[]"] exI[of _ "Dir es"]) simp
    next
      case 2
      with rest obtain k q n n' where
        "x = p @ k # q" "map_of es k = Some n" "lookup n q = Some n'" "entry_of n' = m"
        by blast
      then show ?thesis
        by (intro exI[of _ "k # q"] exI[of _ n']) (simp add: lookup_Dir_Cons)
    qed
  next
    assume "\<exists>q n'. x = p @ q \<and> lookup (Dir es) q = Some n' \<and> entry_of n' = m"
    then obtain q n' where q: "x = p @ q" "lookup (Dir es) q = Some n'" "entry_of n' = m"
      by blast
    show "(x, m) \<in> set (members p (Dir es))"
    proof (cases q)
      case Nil
      with q show ?thesis by auto
    next
      case (Cons k q')
      with q obtain n where "x = p @ k # q'" "map_of es k = Some n" "lookup n q' = Some n'"
        by (auto simp: lookup_Dir_Cons split: option.splits)
      with q(3) rest have "(x, m) \<in> set (members_entries p es)" by blast
      then show ?thesis by simp
    qed
  qed
next
  case (3 p)
  show ?case by simp
next
  case (4 p k n es)
  from "4.prems" have wn: "well_formed n" and wes: "well_formed (Dir es)"
    and fresh: "k \<notin> fst ` set es"
    by auto
  have here: "(x, m) \<in> set (members (p @ [k]) n) \<longleftrightarrow>
                (\<exists>q n'. x = p @ k # q \<and> lookup n q = Some n' \<and> entry_of n' = m)"
    using "4.IH"(1)[OF wn, of x m] by simp
  note rest = "4.IH"(2)[OF wes, of x m]
  show ?case
  proof
    assume "(x, m) \<in> set (members_entries p ((k, n) # es))"
    then consider "(x, m) \<in> set (members (p @ [k]) n)" | "(x, m) \<in> set (members_entries p es)"
      by auto
    then show "\<exists>k' q n0 n'. x = p @ k' # q \<and> map_of ((k, n) # es) k' = Some n0 \<and>
                 lookup n0 q = Some n' \<and> entry_of n' = m"
    proof cases
      case 1
      with here obtain q n' where "x = p @ k # q" "lookup n q = Some n'" "entry_of n' = m"
        by blast
      then show ?thesis by (intro exI[of _ k] exI[of _ q] exI[of _ n] exI[of _ n']) simp
    next
      case 2
      with rest obtain k' q n0 n' where
        r: "x = p @ k' # q" "map_of es k' = Some n0" "lookup n0 q = Some n'" "entry_of n' = m"
        by blast
      from r(2) have "k' \<in> fst ` set es" by (force dest: map_of_SomeD)
      with fresh have "k' \<noteq> k" by auto
      with r show ?thesis by (intro exI[of _ k'] exI[of _ q] exI[of _ n0] exI[of _ n']) simp
    qed
  next
    assume "\<exists>k' q n0 n'. x = p @ k' # q \<and> map_of ((k, n) # es) k' = Some n0 \<and>
              lookup n0 q = Some n' \<and> entry_of n' = m"
    then obtain k' q n0 n' where
      r: "x = p @ k' # q" "map_of ((k, n) # es) k' = Some n0" "lookup n0 q = Some n'"
         "entry_of n' = m"
      by blast
    show "(x, m) \<in> set (members_entries p ((k, n) # es))"
    proof (cases "k' = k")
      case True
      with r have "x = p @ k # q" "lookup n q = Some n'" by auto
      with here r(4) show ?thesis by auto
    next
      case False
      with r have "x = p @ k' # q" "map_of es k' = Some n0" "lookup n0 q = Some n'" by auto
      with rest r(4) have "(x, m) \<in> set (members_entries p es)" by blast
      then show ?thesis by simp
    qed
  qed
qed

lemma members_entries_root:
  assumes "well_formed (Dir es)"
  shows "(x, m) \<in> set (members_entries [] es) \<longleftrightarrow>
           x \<noteq> [] \<and> (\<exists>n'. lookup (Dir es) x = Some n' \<and> entry_of n' = m)"
proof -
  have "(\<exists>k q n n'. x = k # q \<and> map_of es k = Some n \<and> lookup n q = Some n' \<and> entry_of n' = m) \<longleftrightarrow>
        x \<noteq> [] \<and> (\<exists>n'. lookup (Dir es) x = Some n' \<and> entry_of n' = m)"
    by (cases x) (auto simp: lookup_Dir_Cons split: option.splits)
  with members_iff(2)[OF assms, of x m "[]"] show ?thesis by simp
qed

lemma entry_of_FileMember: "entry_of n = FileMember c \<longleftrightarrow> n = File c"
  by (cases n) auto

lemma entry_of_DirMember: "entry_of n = DirMember \<longleftrightarrow> (\<exists>es. n = Dir es)"
  by (cases n) auto

lemma members_distinct:
  "well_formed n \<Longrightarrow> distinct (map fst (members p n))"
  "well_formed (Dir es) \<Longrightarrow> distinct (map fst (members_entries p es))"
proof (induction p n and p es rule: members_members_entries.induct)
  case (1 p c)
  show ?case by simp
next
  case (2 p es)
  have "p \<notin> fst ` set (members_entries p es)"
  proof
    assume "p \<in> fst ` set (members_entries p es)"
    then obtain m where "(p, m) \<in> set (members_entries p es)" by fastforce
    with members_iff(2)[OF "2.prems", of p m p] show False by auto
  qed
  with "2.IH"[OF "2.prems"] show ?case by simp
next
  case (3 p)
  show ?case by simp
next
  case (4 p k n es)
  from "4.prems" have wn: "well_formed n" and wes: "well_formed (Dir es)"
    and fresh: "k \<notin> fst ` set es"
    by auto
  have "fst ` set (members (p @ [k]) n) \<inter> fst ` set (members_entries p es) = {}"
  proof (rule ccontr)
    assume "fst ` set (members (p @ [k]) n) \<inter> fst ` set (members_entries p es) \<noteq> {}"
    then obtain x m m' where
      a: "(x, m) \<in> set (members (p @ [k]) n)" and b: "(x, m') \<in> set (members_entries p es)"
      by fastforce
    from a members_iff(1)[OF wn, of x m "p @ [k]"] obtain q where q: "x = p @ k # q" by auto
    from b members_iff(2)[OF wes, of x m' p] obtain k' q' n' where
      k': "x = p @ k' # q'" "map_of es k' = Some n'"
      by auto
    from k'(2) have "k' \<in> fst ` set es" by (force dest: map_of_SomeD)
    with q k'(1) fresh show False by auto
  qed
  with "4.IH"(1)[OF wn] "4.IH"(2)[OF wes] show ?case by simp
qed

text \<open>
  C4, as the script behaves. For a run that ends with status 0 on a well-formed tree,
  \<^verbatim>\<open>theme.zip\<close> is an archive with these entries and no others. Its file entries are
  exactly the files below \<^verbatim>\<open>theme\<close> in the final tree (the archiver does not change the
  staged output, so these are the files present after normalization): a file entry with
  path \<open>p\<close> and content \<open>c\<close> is in the archive if and only if the file at \<^verbatim>\<open>theme\<close>
  followed by \<open>p\<close> has content \<open>c\<close>. Its directory entries are exactly the directories
  below \<^verbatim>\<open>theme\<close>, \<^verbatim>\<open>theme\<close> itself left out. The path of an entry is relative to
  \<^verbatim>\<open>theme\<close>, without the name \<^verbatim>\<open>theme\<close> in front, and no path occurs twice.
\<close>

theorem archive_entries_exact:
  assumes "well_formed r" "exit_status (buildTheme r) = 0"
  shows "\<exists>ms. lookup (root (final (buildTheme r))) themeZip = Some (File (Zip ms)) \<and>
           (\<forall>p c. (p, FileMember c) \<in> set ms \<longleftrightarrow>
                   lookup (root (final (buildTheme r))) (themeDir @ p) = Some (File c)) \<and>
           (\<forall>p. (p, DirMember) \<in> set ms \<longleftrightarrow>
                   p \<noteq> [] \<and> (\<exists>es. lookup (root (final (buildTheme r))) (themeDir @ p) = Some (Dir es))) \<and>
           distinct (map fst ms)"
proof -
  from buildTheme_ok[OF assms(2)] obtain st1 st2 st3 where
    s: "stager (start r) = Inr st1" and n: "normalizer st1 = Inr st2" and
    a: "archiver st2 = Inr st3" and f: "final (buildTheme r) = st3"
    by blast
  have "well_formed (root st1)" using well_formed_stager[OF _ s] assms(1) by (simp add: start_def)
  from well_formed_normalizer[OF this n] have w2: "well_formed (root st2)" .
  from archiver_Inr[OF a] obtain r1 ms where
    r1: "createWriteStream themeZip (root st2) = Inr r1" and
    ms: "archive_directory themeDir r1 = Inr ms" and
    put: "put themeZip (File (Zip ms)) r1 = Some (root st3)"
    by blast
  from ms obtain es where es: "lookup r1 themeDir = Some (Dir es)" "ms = members_entries [] es"
    by (auto simp: archive_directory_def split: option.splits node.splits)
  have staged: "lookup (root st3) (themeDir @ p) = lookup (root st2) (themeDir @ p)" for p
    using archiver_frame[of "''theme''" st2 p] a by (simp add: end_state_def)
  have "lookup r1 themeDir = lookup (root st2) themeDir"
    using createWriteStream_frame[OF r1, of "''theme''" "[]"] by simp
  with es(1) have dir: "lookup (root st2) themeDir = Some (Dir es)" by simp
  from well_formed_lookup[OF w2 dir] have wes: "well_formed (Dir es)" .
  have below: "lookup (root st3) (themeDir @ p) = lookup (Dir es) p" for p
    using staged[of p] dir by (simp only: lookup_append option.case)
  have files: "(p, FileMember c) \<in> set ms \<longleftrightarrow> lookup (root st3) (themeDir @ p) = Some (File c)"
    for p c
  proof (cases "p = []")
    case True
    with members_entries_root[OF wes, of p "FileMember c"] es(2) below[of p] show ?thesis
      by simp
  next
    case False
    with members_entries_root[OF wes, of p "FileMember c"] es(2) below[of p] show ?thesis
      by (simp add: entry_of_FileMember)
  qed
  have dirs: "(p, DirMember) \<in> set ms \<longleftrightarrow>
                p \<noteq> [] \<and> (\<exists>ds. lookup (root st3) (themeDir @ p) = Some (Dir ds))" for p
    using members_entries_root[OF wes, of p DirMember] es(2) below[of p]
    by (auto simp: entry_of_DirMember)
  have "distinct (map fst ms)" using members_distinct(2)[OF wes] es(2) by simp
  moreover have "lookup (root st3) themeZip = Some (File (Zip ms))"
    by (rule lookup_put_same[OF put])
  ultimately show ?thesis using f files dirs by blast
qed

theorem archive_entries_exact_witness:
  "well_formed scenario_root \<and> exit_status (buildTheme scenario_root) = 0 \<and>
   lookup (root (final (buildTheme scenario_root))) (themeDir @ [''assets'', ''index.css''])
     = Some (File (Bytes ''body{}'')) \<and>
   ([''assets'', ''index.css''], FileMember (Bytes ''body{}''))
     \<in> set (archive_entries (root (final (buildTheme scenario_root))) themeZip) \<and>
   ([''theme'', ''assets'', ''index.css''], FileMember (Bytes ''body{}''))
     \<notin> set (archive_entries (root (final (buildTheme scenario_root))) themeZip)"
proof -
  let ?F = "root (final (buildTheme scenario_root))"
  have w: "well_formed scenario_root" by (simp add: scenario_root_def)
  have ok: "exit_status (buildTheme scenario_root) = 0" by code_simp
  have here: "lookup ?F (themeDir @ [''assets'', ''index.css'']) = Some (File (Bytes ''body{}''))"
    by code_simp
  have nothere: "lookup ?F (themeDir @ [''theme'', ''assets'', ''index.css'']) = None"
    by code_simp
  from archive_entries_exact[OF w ok] obtain ms where
    m: "lookup ?F themeZip = Some (File (Zip ms))" and
    i: "\<forall>p c. (p, FileMember c) \<in> set ms \<longleftrightarrow> lookup ?F (themeDir @ p) = Some (File c)"
    by blast
  from m have e: "archive_entries ?F themeZip = ms" by (simp add: archive_entries_def)
  from i here have "([''assets'', ''index.css''], FileMember (Bytes ''body{}'')) \<in> set ms"
    by blast
  moreover from i nothere have
    "([''theme'', ''assets'', ''index.css''], FileMember (Bytes ''body{}'')) \<notin> set ms"
    by (metis option.distinct(1))
  ultimately show ?thesis using w ok here e by simp
qed

text \<open>
  C4, as the specification states it, fails: in the scenario of the specification the
  archive holds, besides the four files, an entry for the directory \<^verbatim>\<open>assets\<close> and an
  entry for the directory \<^verbatim>\<open>layout\<close>, which are not files of the staged output.
\<close>

theorem archive_holds_directory_entries:
  "exit_status (buildTheme scenario_root) = 0 \<and>
   ([''assets''], DirMember)
     \<in> set (archive_entries (root (final (buildTheme scenario_root))) themeZip) \<and>
   ([''layout''], DirMember)
     \<in> set (archive_entries (root (final (buildTheme scenario_root))) themeZip) \<and>
   length (archive_entries (root (final (buildTheme scenario_root))) themeZip) = 6 \<and>
   lookup (root (final (buildTheme scenario_root))) (themeDir @ [''layout''])
     = Some (Dir [(''theme.liquid'', File (Bytes ''<html>''))])"
  by code_simp

lemma parent_is_dir:
  assumes "lookup r (p @ [x]) = Some n"
  shows "\<exists>es. lookup r p = Some (Dir es)"
proof -
  from assms obtain m where m: "lookup r p = Some m" "lookup m [x] = Some n"
    by (auto simp: lookup_append split: option.splits)
  from lookup_Some_is_dir[OF m(2)] m(1) show ?thesis by auto
qed

lemma copy_file_ok:
  assumes "lookup r s = Some (File c)" "s \<noteq> p @ [x]" "lookup r p = Some (Dir es)"
    and "\<And>ds. lookup r (p @ [x]) \<noteq> Some (Dir ds)"
  shows "\<exists>r'. copy s (p @ [x]) r = Inr r'"
proof -
  have cn: "copy_node s (p @ [x]) (File c) (lookup r (p @ [x])) = Inr (File c)"
    using assms(4) by (auto split: option.splits node.splits)
  from put_exists[of r "p @ [x]" es "File c"] assms(3) obtain r' where
    "put (p @ [x]) (File c) r = Some r'"
    by auto
  with assms(1,2,3) cn show ?thesis by (simp add: copy_def)
qed

lemma copyAssets_ok:
  "(\<And>f. f \<in> set files \<Longrightarrow> \<exists>c. lookup (root st) (distAssets @ [f]) = Some (File c)) \<Longrightarrow>
   (\<exists>es. lookup (root st) themeAssets = Some (Dir es)) \<Longrightarrow>
   (\<And>f ds. f \<in> set files \<Longrightarrow> lookup (root st) (themeAssets @ [normalizedName f]) \<noteq> Some (Dir ds)) \<Longrightarrow>
   \<exists>st'. copyAssets files st = Inr st' \<and> (\<exists>es. lookup (root st') themeAssets = Some (Dir es))"
proof (induction files arbitrary: st)
  case Nil
  then show ?case by simp
next
  case (Cons f files)
  let ?s = "distAssets @ [f]" and ?d = "themeAssets @ [normalizedName f]"
  from Cons.prems(1)[of f] obtain c where c: "lookup (root st) ?s = Some (File c)" by auto
  from Cons.prems(2) obtain es where es: "lookup (root st) themeAssets = Some (Dir es)" by blast
  have "?s \<noteq> ?d" by simp
  from copy_file_ok[OF c this es Cons.prems(3)[of f]] obtain r1 where r1: "copy ?s ?d (root st) = Inr r1"
    by auto
  let ?st1 = "st\<lparr>root := r1\<rparr>"
  have here: "lookup r1 ?d = Some (File c)" by (rule copy_file_result[OF r1 c])
  have src: "\<exists>c. lookup (root ?st1) (distAssets @ [g]) = Some (File c)" if "g \<in> set files" for g
    using copy_frame[of _ "''theme''" _ "root st" r1 "''dist''" "[''assets'', g]"] r1
          Cons.prems(1)[of g] that
    by simp
  have dir: "\<exists>es. lookup (root ?st1) themeAssets = Some (Dir es)"
    using parent_is_dir[of r1 themeAssets "normalizedName f"] here by simp
  have tgt: "lookup (root ?st1) (themeAssets @ [normalizedName g]) \<noteq> Some (Dir ds)"
    if "g \<in> set files" for g ds
  proof (cases "normalizedName g = normalizedName f")
    case True
    with here show ?thesis by simp
  next
    case False
    then have "normalizedName f \<noteq> normalizedName g" by simp
    from copy_asset_sibling[OF r1 this, of "[]"] Cons.prems(3)[of g ds] that show ?thesis by simp
  qed
  from Cons.IH[of ?st1, OF src dir tgt] obtain st' where
    "copyAssets files ?st1 = Inr st'" "\<exists>es. lookup (root st') themeAssets = Some (Dir es)"
    by blast
  with r1 show ?case unfolding copyAssets_step by (simp add: await_def)
qed

lemma normalizer_ok:
  assumes "lookup (root st) themeDir = Some (Dir ts)" "\<And>c. map_of ts ''assets'' \<noteq> Some (File c)"
    and "lookup (root st) distAssets = Some (Dir ds)"
    and "\<And>f. f \<in> set (map fst ds) \<Longrightarrow> \<exists>c. map_of ds f = Some (File c)"
    and "\<And>f es. f \<in> set (map fst ds) \<Longrightarrow>
           lookup (Dir ts) [''assets'', normalizedName f] \<noteq> Some (Dir es)"
  shows "\<exists>st'. normalizer st = Inr st' \<and> (\<exists>es. lookup (root st') themeAssets = Some (Dir es))"
proof -
  from ensureDir_assets_ok[OF assms(1,2)] obtain r1 where r1: "ensureDir themeAssets (root st) = Inr r1"
    by auto
  let ?st1 = "st\<lparr>root := r1\<rparr>"
  have d1: "lookup r1 (''dist'' # q) = lookup (root st) (''dist'' # q)" for q
    by (rule ensureDir_frame[OF r1]) simp
  from d1[of "[''assets'']"] assms(3) have l: "readdir distAssets r1 = Inr (map fst ds)"
    by (simp add: readdir_def)
  have src: "\<exists>c. lookup (root ?st1) (distAssets @ [f]) = Some (File c)" if "f \<in> set (map fst ds)" for f
    using d1[of "[''assets'', f]"] lookup_listed[OF assms(3), of f] assms(4)[OF that] by simp
  from r1 have "mkdirs_node themeAssets (root st) = Some r1"
    by (auto simp: ensureDir_def mkdirs_def split: option.splits)
  from mkdirs_node_is_dir[OF this] have dir: "\<exists>es. lookup (root ?st1) themeAssets = Some (Dir es)"
    by simp
  have tgt: "lookup (root ?st1) (themeAssets @ [normalizedName f]) \<noteq> Some (Dir es)"
    if "f \<in> set (map fst ds)" for f es
  proof -
    have "lookup (root st) (themeDir @ [''assets'', normalizedName f])
            = lookup (Dir ts) [''assets'', normalizedName f]"
      using assms(1) by (simp only: lookup_append option.case)
    with ensureDir_under_assets[OF r1, of "normalizedName f" "[]"] assms(5)[OF that, of es]
    show ?thesis by simp
  qed
  from copyAssets_ok[of "map fst ds" ?st1, OF src dir tgt] obtain st' where
    "copyAssets (map fst ds) ?st1 = Inr st'" "\<exists>es. lookup (root st') themeAssets = Some (Dir es)"
    by blast
  with r1 l show ?thesis by (simp add: normalizer_def await_def)
qed

lemma archiver_ok:
  assumes "lookup (root st) themeDir = Some (Dir es)" "\<And>ds. lookup (root st) themeZip \<noteq> Some (Dir ds)"
  shows "\<exists>st'. archiver st = Inr st'"
proof -
  from lookup_Some_is_dir[OF assms(1)] obtain rs where rs: "root st = Dir rs" by auto
  from put_exists[of "root st" themeZip rs "File (Bytes [])"] rs obtain r1 where
    p1: "put themeZip (File (Bytes [])) (root st) = Some r1"
    by auto
  with assms(2) have c: "createWriteStream themeZip (root st) = Inr r1"
    by (auto simp: createWriteStream_def split: option.splits node.splits)
  from put_frame[OF p1, of "''theme''" "[]"] assms(1) have t1: "lookup r1 themeDir = Some (Dir es)"
    by simp
  then have ms: "archive_directory themeDir r1 = Inr (members_entries [] es)"
    by (simp add: archive_directory_def)
  from lookup_Some_is_dir[OF t1] obtain rs1 where "r1 = Dir rs1" by auto
  with put_exists[of r1 themeZip rs1 "File (Zip (members_entries [] es))"] obtain r2 where
    "put themeZip (File (Zip (members_entries [] es))) r1 = Some r2"
    by auto
  with c ms show ?thesis by (simp add: archiver_def)
qed

text \<open>
  When does a run end with status 0? It does when the template tree is a well-formed
  directory, the build output is a directory of files, nothing blocks the places the
  script writes to (\<^verbatim>\<open>theme\<close> is not a file, \<^verbatim>\<open>theme.zip\<close> is not a directory, the
  template's \<^verbatim>\<open>assets\<close> is not a file), and the template tree has no directory where a
  build file is to be stored.
\<close>

lemma run_succeeds:
  assumes "lookup r themeSrc = Some (Dir ts)" "well_formed (Dir ts)"
    and "\<And>c. lookup r themeDir \<noteq> Some (File c)"
    and "\<And>c. map_of ts ''assets'' \<noteq> Some (File c)"
    and "lookup r distAssets = Some (Dir ds)"
    and "\<And>f. f \<in> set (map fst ds) \<Longrightarrow> \<exists>c. map_of ds f = Some (File c)"
    and "\<And>f es. f \<in> set (map fst ds) \<Longrightarrow>
           lookup (Dir ts) [''assets'', normalizedName f] \<noteq> Some (Dir es)"
    and "\<And>es. lookup r themeZip \<noteq> Some (Dir es)"
  shows "exit_status (buildTheme r) = 0"
proof -
  from stager_exact[of "start r" ts] assms(1,2,3) obtain st1 where
    s: "stager (start r) = Inr st1" and t1: "lookup (root st1) themeDir = Some (Dir ts)"
    by (auto simp: start_def)
  have f1: "lookup (root st1) (y # q) = lookup r (y # q)" if "y \<noteq> ''theme''" for y q
    using stager_frame[OF that, of "start r" q] s by (simp add: end_state_def start_def)
  from f1[of "''dist''" "[''assets'']"] assms(5) have d1: "lookup (root st1) distAssets = Some (Dir ds)"
    by simp
  from normalizer_ok[OF t1 assms(4) d1 assms(6,7)] obtain st2 es where
    n: "normalizer st1 = Inr st2" and a2: "lookup (root st2) themeAssets = Some (Dir es)"
    by blast
  from parent_is_dir[of "root st2" themeDir "''assets''"] a2 obtain es2 where
    t2: "lookup (root st2) themeDir = Some (Dir es2)"
    by auto
  have "lookup (root st2) themeZip = lookup (root st1) themeZip"
    using normalizer_frame[of "''theme.zip''" st1 "[]"] n by (simp add: end_state_def)
  with f1[of "''theme.zip''" "[]"] assms(8) have "\<And>ds. lookup (root st2) themeZip \<noteq> Some (Dir ds)"
    by simp
  from archiver_ok[OF t2 this] obtain st3 where "archiver st2 = Inr st3" by blast
  with s n show ?thesis by (simp add: buildTheme_def body_def)
qed

end
